theory Spec2Isabelle
  imports Complex_Main
begin

section \<open>Python values and exceptions\<close>

text \<open>
  The exceptions the two modules raise or let through. Every one of them is a subclass of
  Python's \<open>Exception\<close>. \<open>ExternalError\<close> stands for an exception raised inside a library
  the modules call (pandas, the scoring backend, the operating system). A \<open>KeyError\<close>
  carries its key, the other exceptions their message.
\<close>

datatype error =
    FileNotFoundError string
  | ValueError string
  | KeyError string
  | TypeError string
  | UnicodeDecodeError string
  | ExternalError string

text \<open>
  \<open>repr\<close> of a string (code points below 256): double quotes when the string has a single
  quote and no double quote, single quotes otherwise; the quote and the backslash are
  escaped, tab, newline and carriage return are written \<open>\t\<close>, \<open>\n\<close>, \<open>\r\<close>, and the
  other non-printable characters as \<open>\xhh\<close>.
\<close>

definition hex_digit :: "nat \<Rightarrow> char" where
  "hex_digit n = (if n < 10 then char_of (48 + n) else char_of (87 + n))"

definition repr_char :: "char \<Rightarrow> char \<Rightarrow> string" where
  "repr_char q c =
     (let n = (of_char c :: nat) in
      if c = q \<or> n = 92 then [CHR 0x5C, c]
      else if n = 9 then [CHR 0x5C, CHR ''t'']
      else if n = 10 then [CHR 0x5C, CHR ''n'']
      else if n = 13 then [CHR 0x5C, CHR ''r'']
      else if n < 32 \<or> n = 127 \<or> (128 \<le> n \<and> n \<le> 160) \<or> n = 173
      then [CHR 0x5C, CHR ''x'', hex_digit (n div 16), hex_digit (n mod 16)]
      else [c])"

definition py_repr :: "string \<Rightarrow> string" where
  "py_repr s =
     (let q = (if CHR 0x27 \<in> set s \<and> CHR 0x22 \<notin> set s then CHR 0x22 else CHR 0x27)
      in [q] @ concat (map (repr_char q) s) @ [q])"

text \<open>\<open>str(e)\<close>: the message; a \<open>KeyError\<close> prints the \<open>repr\<close> of its key.\<close>

fun exc_str :: "error \<Rightarrow> string" where
  "exc_str (FileNotFoundError m) = m"
| "exc_str (ValueError m) = m"
| "exc_str (KeyError k) = py_repr k"
| "exc_str (TypeError m) = m"
| "exc_str (UnicodeDecodeError m) = m"
| "exc_str (ExternalError m) = m"

text \<open>
  Python values: the values of a score dictionary (any object) and of the result
  dictionaries. A dictionary keeps its insertion order, so it is an association list.
  Floats are modelled as reals.
\<close>

datatype pyval =
    Str string
  | IntV int
  | Num real
  | Dict "(string \<times> pyval) list"
  | NoneV

type_synonym pydict = "(string \<times> pyval) list"

text \<open>A score record: metric name to number, as \<open>df.iloc[0].to_dict()\<close> yields it.\<close>

type_synonym scores = "(string \<times> real) list"

text \<open>\<open>k in d\<close>, \<open>d[k]\<close> (raising \<open>KeyError\<close>) and \<open>d[k] = v\<close>.\<close>

definition contains :: "(string \<times> 'a) list \<Rightarrow> string \<Rightarrow> bool" where
  "contains d k = (map_of d k \<noteq> None)"

definition getitem :: "(string \<times> 'a) list \<Rightarrow> string \<Rightarrow> error + 'a" where
  "getitem d k = (case map_of d k of None \<Rightarrow> Inl (KeyError k) | Some v \<Rightarrow> Inr v)"

fun setitem :: "(string \<times> 'a) list \<Rightarrow> string \<Rightarrow> 'a \<Rightarrow> (string \<times> 'a) list" where
  "setitem [] k v = [(k, v)]"
| "setitem ((k', v') # d) k v = (if k' = k then (k, v) # d else (k', v') # setitem d k v)"

text \<open>Sequencing of a step that may raise.\<close>

definition and_then :: "error + 'a \<Rightarrow> ('a \<Rightarrow> error + 'b) \<Rightarrow> error + 'b" where
  "and_then m f = (case m of Inl e \<Rightarrow> Inl e | Inr x \<Rightarrow> f x)"

definition scores_dict :: "scores \<Rightarrow> pyval" where
  "scores_dict s = Dict (map (\<lambda>(k, v). (k, Num v)) s)"

section \<open>The environment\<close>

text \<open>
  What the modules get from outside: the file system (\<open>os.path.exists\<close>, reading a file
  as text in a given encoding, \<open>os.stat\<close>), pandas (\<open>read_csv\<close> of the temporary file
  with the given content, one row per document) and the scoring backend \<open>score_docs\<close>,
  which returns one score record per row. Each may raise.
  \<open>read_text\<close> is \<open>open(path, 'r', encoding=enc)\<close> followed by \<open>read()\<close>.
\<close>

record env =
  path_exists :: "string \<Rightarrow> bool"
  read_text :: "string \<Rightarrow> string \<Rightarrow> error + string"
  stat :: "string \<Rightarrow> error + int \<times> real"
  read_csv :: "string \<Rightarrow> error + string list"
  score_docs :: "string list \<Rightarrow> string \<Rightarrow> string \<Rightarrow> string \<Rightarrow> string \<Rightarrow> nat \<Rightarrow> error + scores list"

text \<open>Keyword arguments passed through to the extractors.\<close>

type_synonym kwargs = "(string \<times> string) list"

section \<open>Strings\<close>

text \<open>
  A character stands for a code point below 256. \<open>str.isspace\<close> holds there for
  U+0009..U+000D, U+001C..U+0020, U+0085 and U+00A0.
\<close>

definition py_isspace :: "char \<Rightarrow> bool" where
  "py_isspace c =
     (let n = (of_char c :: nat)
      in (9 \<le> n \<and> n \<le> 13) \<or> (28 \<le> n \<and> n \<le> 32) \<or> n = 133 \<or> n = 160)"

text \<open>\<open>str.strip()\<close>\<close>

definition strip :: "string \<Rightarrow> string" where
  "strip s = rev (dropWhile py_isspace (rev (dropWhile py_isspace s)))"

text \<open>\<open>str.split()\<close>: the maximal runs of non-whitespace characters.\<close>

fun split_words :: "string \<Rightarrow> string \<Rightarrow> string list" where
  "split_words [] w = (if w = [] then [] else [rev w])"
| "split_words (c # cs) w =
     (if py_isspace c then (if w = [] then split_words cs [] else rev w # split_words cs [])
      else split_words cs (c # w))"

definition py_split :: "string \<Rightarrow> string list" where
  "py_split s = split_words s []"

text \<open>\<open>str.lower()\<close> on the ASCII letters, \<open>str.endswith\<close>.\<close>

definition lower_char :: "char \<Rightarrow> char" where
  "lower_char c =
     (let n = (of_char c :: nat) in if 65 \<le> n \<and> n \<le> 90 then char_of (n + 32) else c)"

definition py_lower :: "string \<Rightarrow> string" where
  "py_lower s = map lower_char s"

definition endswith :: "string \<Rightarrow> string \<Rightarrow> bool" where
  "endswith s suf = (length suf \<le> length s \<and> drop (length s - length suf) s = suf)"

section \<open>Text extraction (text\_extraction.py)\<close>

text \<open>
  \<open>TextExtractorBase\<close>: the interface of an extractor. The plain-text extractor is
  modelled below; the PDF extractor is another instance, whose parsing is done by external
  libraries.
\<close>

record extractor =
  supports_file :: "string \<Rightarrow> bool"
  extract_from :: "string \<Rightarrow> kwargs \<Rightarrow> error + string"
  get_metadata :: "string \<Rightarrow> error + pydict"

text \<open>
  \<open>TxtExtractor.extract\<close>: read with the requested encoding (default utf-8); on a
  \<open>UnicodeDecodeError\<close> try latin-1, cp1252 and iso-8859-1 in turn, skipping the ones that
  fail to decode; any other exception propagates.
\<close>

definition fallback_encodings :: "string list" where
  "fallback_encodings = [''latin-1'', ''cp1252'', ''iso-8859-1'']"

fun try_encodings :: "env \<Rightarrow> string \<Rightarrow> string list \<Rightarrow> error + string" where
  "try_encodings os file_path [] = Inl (ValueError (''Unable to decode text file '' @ file_path))"
| "try_encodings os file_path (enc # encs) =
     (case read_text os file_path enc of
        Inl (UnicodeDecodeError m) \<Rightarrow> try_encodings os file_path encs
      | r \<Rightarrow> r)"

definition requested_encoding :: "kwargs \<Rightarrow> string" where
  "requested_encoding kwargs =
     (case map_of kwargs ''encoding'' of None \<Rightarrow> ''utf-8'' | Some e \<Rightarrow> e)"

definition txt_extract :: "env \<Rightarrow> string \<Rightarrow> kwargs \<Rightarrow> error + string" where
  "txt_extract os file_path kwargs =
     (case read_text os file_path (requested_encoding kwargs) of
        Inl (UnicodeDecodeError m) \<Rightarrow> try_encodings os file_path fallback_encodings
      | r \<Rightarrow> r)"

text \<open>\<open>TxtExtractor.supports_file\<close> and \<open>TxtExtractor.get_metadata\<close>\<close>

definition txt_supports_file :: "string \<Rightarrow> bool" where
  "txt_supports_file file_path =
     (endswith (py_lower file_path) ''.txt'' \<or> endswith (py_lower file_path) ''.text'')"

definition txt_get_metadata :: "env \<Rightarrow> string \<Rightarrow> error + pydict" where
  "txt_get_metadata os file_path =
     (if path_exists os file_path then
        and_then (stat os file_path)
          (\<lambda>(st_size, st_mtime).
             Inr [(''file_size'', IntV st_size), (''file_type'', Str ''text''),
                  (''modified_time'', Num st_mtime)])
      else Inr [])"

definition TxtExtractor :: "env \<Rightarrow> extractor" where
  "TxtExtractor os =
     \<lparr>supports_file = txt_supports_file, extract_from = txt_extract os,
      get_metadata = txt_get_metadata os\<rparr>"

text \<open>
  The encodings the plain-text extractor reads with, in the order it tries them, and
  whether a read ended in a \<open>UnicodeDecodeError\<close>.
\<close>

definition text_encodings :: "kwargs \<Rightarrow> string list" where
  "text_encodings kwargs = requested_encoding kwargs # fallback_encodings"

definition is_decode_error :: "error + string \<Rightarrow> bool" where
  "is_decode_error r = (case r of Inl (UnicodeDecodeError m) \<Rightarrow> True | _ \<Rightarrow> False)"

text \<open>
  \<open>TextExtractionManager.extract_text\<close>. Besides the result the model returns the calls
  made on the registered extractors, by registration index: \<open>Asked n\<close> for
  \<open>supports_file\<close>, \<open>Ran n\<close> for \<open>extract\<close>.
\<close>

datatype event = Asked nat | Ran nat

fun event_index :: "event \<Rightarrow> nat" where
  "event_index (Asked n) = n"
| "event_index (Ran n) = n"

fun try_extractors :: "extractor list \<Rightarrow> nat \<Rightarrow> string \<Rightarrow> kwargs \<Rightarrow> (error + string) \<times> event list" where
  "try_extractors [] n file_path kwargs =
     (Inl (ValueError (''No suitable extractor found for file: '' @ file_path)), [])"
| "try_extractors (x # xs) n file_path kwargs =
     (if supports_file x file_path then
        (case extract_from x file_path kwargs of
           Inr text \<Rightarrow> (Inr text, [Asked n, Ran n])
         | Inl e \<Rightarrow>
             (case try_extractors xs (Suc n) file_path kwargs of
                (r, calls) \<Rightarrow> (r, Asked n # Ran n # calls)))
      else
        (case try_extractors xs (Suc n) file_path kwargs of
           (r, calls) \<Rightarrow> (r, Asked n # calls)))"

definition extract_text :: "env \<Rightarrow> extractor list \<Rightarrow> string \<Rightarrow> kwargs \<Rightarrow> (error + string) \<times> event list" where
  "extract_text os extractors file_path kwargs =
     (if \<not> path_exists os file_path
      then (Inl (FileNotFoundError (''File not found: '' @ file_path)), [])
      else try_extractors extractors 0 file_path kwargs)"

text \<open>\<open>TextExtractionManager.get_file_metadata\<close>\<close>

fun get_file_metadata :: "extractor list \<Rightarrow> string \<Rightarrow> error + pydict" where
  "get_file_metadata [] file_path = Inr []"
| "get_file_metadata (x # xs) file_path =
     (if supports_file x file_path then get_metadata x file_path
      else get_file_metadata xs file_path)"

section \<open>Analysis of texts, files and batches (moral\_analysis.py)\<close>

text \<open>The content of the temporary CSV file: the text as one quoted field.\<close>

definition csv_field :: "string \<Rightarrow> string" where
  "csv_field text =
     [CHR 0x22] @ concat (map (\<lambda>c. if c = CHR 0x22 then [c, c] else [c]) text) @ [CHR 0x22]"

text \<open>\<open>MoralFrameworkAnalyzer.analyze_text\<close>\<close>

definition analyze_text :: "env \<Rightarrow> string \<Rightarrow> string \<Rightarrow> string \<Rightarrow> string \<Rightarrow> string \<Rightarrow> error + scores" where
  "analyze_text os text dict_type prob_map score_method output_metrics =
     (if strip text = [] then Inl (ValueError ''Input text is empty'')
      else
        and_then (read_csv os (csv_field text))
          (\<lambda>csv_data.
             let num_docs = length csv_data in
             and_then
               (if dict_type = ''emfd''
                then score_docs os csv_data dict_type prob_map score_method output_metrics num_docs
                else score_docs os csv_data dict_type '''' score_method '''' num_docs)
               (\<lambda>df. case df of [] \<Rightarrow> Inr [] | row # rest \<Rightarrow> Inr row)))"

text \<open>\<open>MoralFrameworkAnalyzer.analyze_file\<close>\<close>

definition analyze_file :: "env \<Rightarrow> extractor list \<Rightarrow> string \<Rightarrow> string \<Rightarrow> string \<Rightarrow> string \<Rightarrow> string \<Rightarrow> kwargs \<Rightarrow> error + pydict" where
  "analyze_file os extractors file_path dict_type prob_map score_method output_metrics kwargs =
     and_then (fst (extract_text os extractors file_path kwargs))
       (\<lambda>text.
          and_then (get_file_metadata extractors file_path)
            (\<lambda>file_metadata.
               and_then (analyze_text os text dict_type prob_map score_method output_metrics)
                 (\<lambda>moral_scores.
                    Inr [(''file_path'', Str file_path),
                         (''file_metadata'', Dict file_metadata),
                         (''extracted_text'', Str text),
                         (''text_length'', IntV (int (length text))),
                         (''word_count'', IntV (int (length (py_split text)))),
                         (''moral_scores'', scores_dict moral_scores),
                         (''analysis_parameters'',
                          Dict [(''dict_type'', Str dict_type), (''prob_map'', Str prob_map),
                                (''score_method'', Str score_method),
                                (''output_metrics'', Str output_metrics)])])))"

text \<open>
  \<open>MoralFrameworkAnalyzer.analyze_batch\<close>: the loop appends one entry per path, the
  analysis or, when it raised, the error entry.
\<close>

definition error_entry :: "string \<Rightarrow> error \<Rightarrow> pydict" where
  "error_entry file_path e =
     [(''file_path'', Str file_path), (''error'', Str (exc_str e)), (''moral_scores'', Dict [])]"

fun batch_loop :: "env \<Rightarrow> extractor list \<Rightarrow> string \<Rightarrow> string \<Rightarrow> string \<Rightarrow> string \<Rightarrow> kwargs \<Rightarrow> pydict list \<Rightarrow> string list \<Rightarrow> pydict list" where
  "batch_loop os extractors dict_type prob_map score_method output_metrics kwargs results [] =
     results"
| "batch_loop os extractors dict_type prob_map score_method output_metrics kwargs results
     (file_path # file_paths) =
     batch_loop os extractors dict_type prob_map score_method output_metrics kwargs
       (case analyze_file os extractors file_path dict_type prob_map score_method
               output_metrics kwargs of
          Inr result \<Rightarrow> results @ [result]
        | Inl e \<Rightarrow> results @ [error_entry file_path e])
       file_paths"

definition analyze_batch :: "env \<Rightarrow> extractor list \<Rightarrow> string list \<Rightarrow> string \<Rightarrow> string \<Rightarrow> string \<Rightarrow> string \<Rightarrow> kwargs \<Rightarrow> pydict list" where
  "analyze_batch os extractors file_paths dict_type prob_map score_method output_metrics kwargs =
     batch_loop os extractors dict_type prob_map score_method output_metrics kwargs []
       file_paths"

section \<open>The summary layer (moral\_analysis.py)\<close>

text \<open>\<open>MoralFrameworkAnalyzer._categorize_score\<close>\<close>

definition categorize_score :: "real \<Rightarrow> string" where
  "categorize_score score =
     (if score \<ge> 0.15 then ''very_high''
      else if score \<ge> 0.10 then ''high''
      else if score \<ge> 0.05 then ''moderate''
      else if score \<ge> 0.01 then ''low''
      else ''very_low'')"

text \<open>\<open>MoralFrameworkAnalyzer._interpret_moral_density\<close>\<close>

definition interpret_moral_density :: "real \<Rightarrow> string" where
  "interpret_moral_density ratio =
     (if ratio \<ge> 1.0 then ''very_high_moral_content''
      else if ratio \<ge> 0.5 then ''high_moral_content''
      else if ratio \<ge> 0.2 then ''moderate_moral_content''
      else if ratio \<ge> 0.1 then ''low_moral_content''
      else ''very_low_moral_content'')"

text \<open>The position of a strength label among the five bands, weakest first.\<close>

definition strength_rank :: "string \<Rightarrow> nat" where
  "strength_rank l =
     (if l = ''very_high'' then 4
      else if l = ''high'' then 3
      else if l = ''moderate'' then 2
      else if l = ''low'' then 1
      else 0)"

text \<open>
  Dynamic typing. A score value may be any object; ints and floats are the numbers, and
  they compare by value. An ordering comparison that the operands do not support raises
  \<open>TypeError\<close>.
\<close>

fun num_of :: "pyval \<Rightarrow> real option" where
  "num_of (Num r) = Some r"
| "num_of (IntV i) = Some (real_of_int i)"
| "num_of (Str s) = None"
| "num_of (Dict d) = None"
| "num_of NoneV = None"

definition is_number :: "pyval \<Rightarrow> bool" where
  "is_number v = (num_of v \<noteq> None)"

fun type_name :: "pyval \<Rightarrow> string" where
  "type_name (Str s) = ''str''"
| "type_name (IntV i) = ''int''"
| "type_name (Num r) = ''float''"
| "type_name (Dict d) = ''dict''"
| "type_name NoneV = ''NoneType''"

definition not_supported :: "string \<Rightarrow> string \<Rightarrow> string \<Rightarrow> error" where
  "not_supported opr ta tb =
     TypeError ([CHR 0x27] @ opr @ [CHR 0x27] @ '' not supported between instances of '' @
                [CHR 0x27] @ ta @ [CHR 0x27] @ '' and '' @ [CHR 0x27] @ tb @ [CHR 0x27])"

text \<open>Strings are ordered lexicographically by code point.\<close>

fun str_less :: "string \<Rightarrow> string \<Rightarrow> bool" where
  "str_less [] [] = False"
| "str_less [] (y # ys) = True"
| "str_less (x # xs) [] = False"
| "str_less (x # xs) (y # ys) = ((of_char x :: nat) < of_char y \<or> (x = y \<and> str_less xs ys))"

text \<open>\<open>a > b\<close>\<close>

definition py_gt :: "pyval \<Rightarrow> pyval \<Rightarrow> error + bool" where
  "py_gt a b =
     (case (num_of a, num_of b) of
        (Some x, Some y) \<Rightarrow> Inr (x > y)
      | _ \<Rightarrow>
          (case (a, b) of
             (Str s, Str t) \<Rightarrow> Inr (str_less t s)
           | _ \<Rightarrow> Inl (not_supported ''>'' (type_name a) (type_name b))))"

text \<open>
  \<open>_categorize_score\<close> and \<open>_interpret_moral_density\<close> on an arbitrary value: the first
  comparison, with a float, raises unless the value is a number.
\<close>

definition categorize_value :: "pyval \<Rightarrow> error + string" where
  "categorize_value score =
     (case num_of score of
        None \<Rightarrow> Inl (not_supported ''>='' (type_name score) ''float'')
      | Some r \<Rightarrow> Inr (categorize_score r))"

definition interpret_density_value :: "pyval \<Rightarrow> error + string" where
  "interpret_density_value ratio =
     (case num_of ratio of
        None \<Rightarrow> Inl (not_supported ''>='' (type_name ratio) ''float'')
      | Some r \<Rightarrow> Inr (interpret_moral_density r))"

text \<open>The canonical order of the foundations (\<open>get_moral_summary\<close>, both branches).\<close>

definition foundations :: "string list" where
  "foundations = [''care'', ''fairness'', ''loyalty'', ''authority'', ''sanctity'']"

definition mfd_foundations :: "string list" where
  "mfd_foundations =
     [''care.virtue'', ''fairness.virtue'', ''loyalty.virtue'', ''authority.virtue'',
      ''sanctity.virtue'', ''care.vice'', ''fairness.vice'', ''loyalty.vice'',
      ''authority.vice'', ''sanctity.vice'']"

text \<open>
  The first loop of the eMFD branch: for each foundation, copy the probability and the
  sentiment into \<open>prob_scores\<close> and \<open>sent_scores\<close> when the record has the key.
\<close>

fun collect_scores :: "pydict \<Rightarrow> string list \<Rightarrow> pydict \<times> pydict \<Rightarrow> error + pydict \<times> pydict" where
  "collect_scores sc [] acc = Inr acc"
| "collect_scores sc (f # fs) (prob_scores, sent_scores) =
     and_then
       (if contains sc (f @ ''_p'')
        then and_then (getitem sc (f @ ''_p'')) (\<lambda>v. Inr (setitem prob_scores f v))
        else Inr prob_scores)
       (\<lambda>prob_scores'.
          and_then
            (if contains sc (f @ ''_sent'')
             then and_then (getitem sc (f @ ''_sent'')) (\<lambda>v. Inr (setitem sent_scores f v))
             else Inr sent_scores)
            (\<lambda>sent_scores'. collect_scores sc fs (prob_scores', sent_scores')))"

text \<open>
  \<open>max(prob_scores.items(), key=lambda x: x[1])\<close>: the running best is replaced only by
  an item whose key is strictly greater, so the first maximal item wins; a comparison the
  keys do not support raises.
\<close>

fun max_loop :: "string \<times> pyval \<Rightarrow> (string \<times> pyval) list \<Rightarrow> error + string \<times> pyval" where
  "max_loop best [] = Inr best"
| "max_loop best (y # ys) =
     and_then (py_gt (snd y) (snd best)) (\<lambda>greater. max_loop (if greater then y else best) ys)"

fun max_item :: "(string \<times> pyval) list \<Rightarrow> error + string \<times> pyval" where
  "max_item [] = Inl (ValueError ''max() arg is an empty sequence'')"
| "max_item (x # xs) = max_loop x xs"

text \<open>
  The sentiment direction: \<open>'positive' if s > 0 else 'negative' if s < 0 else 'neutral'\<close>;
  the comparison with the int 0 raises unless the value is a number.
\<close>

definition sentiment_direction :: "real \<Rightarrow> string" where
  "sentiment_direction s =
     (if s > 0 then ''positive'' else if s < 0 then ''negative'' else ''neutral'')"

definition sentiment_direction_value :: "pyval \<Rightarrow> error + string" where
  "sentiment_direction_value s =
     (case num_of s of
        None \<Rightarrow> Inl (not_supported ''>'' (type_name s) ''int'')
      | Some r \<Rightarrow> Inr (sentiment_direction r))"

text \<open>The body of the second loop: the entries of one foundation.\<close>

definition foundation_summary :: "pydict \<Rightarrow> pydict \<Rightarrow> string \<Rightarrow> error + pydict" where
  "foundation_summary prob_scores sent_scores f =
     and_then
       (if contains prob_scores f
        then and_then (getitem prob_scores f)
               (\<lambda>p. and_then (categorize_value p)
                      (\<lambda>strength. Inr (setitem (setitem [] ''probability'' p)
                                          ''strength'' (Str strength))))
        else Inr [])
       (\<lambda>fsum.
          if contains sent_scores f
          then and_then (getitem sent_scores f)
                 (\<lambda>s. and_then (sentiment_direction_value s)
                        (\<lambda>direction. Inr (setitem (setitem fsum ''sentiment'' s)
                                             ''sentiment_direction'' (Str direction))))
          else Inr fsum)"

text \<open>\<open>summary['moral_foundations'][f] = entry\<close>\<close>

definition set_foundation :: "pydict \<Rightarrow> string \<Rightarrow> pydict \<Rightarrow> error + pydict" where
  "set_foundation summary f entry =
     and_then (getitem summary ''moral_foundations'')
       (\<lambda>mf. case mf of
                Dict d \<Rightarrow> Inr (setitem summary ''moral_foundations'' (Dict (setitem d f (Dict entry))))
              | _ \<Rightarrow> Inl (TypeError ''object does not support item assignment''))"

fun summarize_foundations :: "pydict \<Rightarrow> pydict \<Rightarrow> string list \<Rightarrow> pydict \<Rightarrow> error + pydict" where
  "summarize_foundations prob_scores sent_scores [] summary = Inr summary"
| "summarize_foundations prob_scores sent_scores (f # fs) summary =
     and_then (foundation_summary prob_scores sent_scores f)
       (\<lambda>fsum.
          and_then (if fsum \<noteq> [] then set_foundation summary f fsum else Inr summary)
            (\<lambda>summary'. summarize_foundations prob_scores sent_scores fs summary'))"

text \<open>The \<open>moral_density\<close> entry, added by both branches.\<close>

definition add_moral_density :: "pydict \<Rightarrow> pydict \<Rightarrow> error + pydict" where
  "add_moral_density sc summary =
     (if contains sc ''moral_nonmoral_ratio''
      then and_then (getitem sc ''moral_nonmoral_ratio'')
             (\<lambda>r. and_then (interpret_density_value r)
                    (\<lambda>interpretation.
                       Inr (setitem summary ''moral_density''
                              (Dict [(''ratio'', r), (''interpretation'', Str interpretation)]))))
      else Inr summary)"

text \<open>The loop of the MFD/MFD2 branch.\<close>

fun summarize_mfd :: "pydict \<Rightarrow> string list \<Rightarrow> pydict \<Rightarrow> error + pydict" where
  "summarize_mfd sc [] summary = Inr summary"
| "summarize_mfd sc (f # fs) summary =
     and_then
       (if contains sc f
        then and_then (getitem sc f)
               (\<lambda>v. and_then (categorize_value v)
                      (\<lambda>strength. set_foundation summary f
                                     [(''score'', v), (''strength'', Str strength)]))
        else Inr summary)
       (\<lambda>summary'. summarize_mfd sc fs summary')"

text \<open>
  \<open>MoralFrameworkAnalyzer.get_moral_summary\<close>. The score dictionary is a
  \<open>Dict[str, Any]\<close>: its values need not be numbers.
\<close>

definition get_moral_summary :: "pydict \<Rightarrow> string \<Rightarrow> error + pydict" where
  "get_moral_summary sc dict_type =
     (let summary = [(''dictionary_used'', Str dict_type), (''moral_foundations'', Dict [])] in
      if dict_type = ''emfd'' then
        and_then (collect_scores sc foundations ([], []))
          (\<lambda>(prob_scores, sent_scores).
             and_then
               (if prob_scores \<noteq> []
                then and_then (max_item prob_scores)
                       (\<lambda>dominant_foundation.
                          Inr (setitem summary ''dominant_foundation''
                                 (Dict [(''name'', Str (fst dominant_foundation)),
                                        (''probability'', snd dominant_foundation)])))
                else Inr summary)
               (\<lambda>summary1.
                  and_then (summarize_foundations prob_scores sent_scores foundations summary1)
                    (\<lambda>summary2. add_moral_density sc summary2)))
      else if dict_type = ''mfd'' \<or> dict_type = ''mfd2'' then
        and_then (summarize_mfd sc mfd_foundations summary)
          (\<lambda>summary1. add_moral_density sc summary1)
      else Inr summary)"

text \<open>
  The keys \<open>get_moral_summary\<close> reads for a dictionary type, and the records in which
  every value it reads is a number.
\<close>

definition read_keys :: "string \<Rightarrow> string list" where
  "read_keys dict_type =
     (if dict_type = ''emfd''
      then map (\<lambda>f. f @ ''_p'') foundations @ map (\<lambda>f. f @ ''_sent'') foundations @
           [''moral_nonmoral_ratio'']
      else if dict_type = ''mfd'' \<or> dict_type = ''mfd2''
      then mfd_foundations @ [''moral_nonmoral_ratio'']
      else [])"

definition numeric_opt :: "pyval option \<Rightarrow> bool" where
  "numeric_opt x = (case x of None \<Rightarrow> True | Some v \<Rightarrow> is_number v)"

definition reads_numbers :: "pydict \<Rightarrow> string \<Rightarrow> bool" where
  "reads_numbers sc dict_type = list_all (\<lambda>k. numeric_opt (map_of sc k)) (read_keys dict_type)"

section \<open>An example environment\<close>

text \<open>
  A file system with one text file that is not valid UTF-8, and a scoring backend that
  returns one fixed record per document; used to instantiate the theorems below.
\<close>

definition example_env :: env where
  "example_env =
     \<lparr>path_exists = (\<lambda>p. p = ''a.txt''),
      read_text = (\<lambda>p enc. if enc = ''utf-8'' then Inl (UnicodeDecodeError ''invalid start byte'')
                            else Inr ''fair play''),
      stat = (\<lambda>p. Inr (9, 0)),
      read_csv = (\<lambda>content. Inr [content]),
      score_docs = (\<lambda>csv_data dict_type prob_map score_method output_metrics num_docs.
                      Inr (map (\<lambda>doc. [(''fairness_p'', 0.2)]) csv_data))\<rparr>"

text \<open>
  Three registered extractors: one that supports no file, one that claims every file and
  fails, and the plain-text extractor.
\<close>

definition example_extractors :: "extractor list" where
  "example_extractors =
     [\<lparr>supports_file = (\<lambda>p. False), extract_from = (\<lambda>p kw. Inr ''unused''),
       get_metadata = (\<lambda>p. Inr [])\<rparr>,
      \<lparr>supports_file = (\<lambda>p. True), extract_from = (\<lambda>p kw. Inl (ValueError ''broken'')),
       get_metadata = (\<lambda>p. Inr [])\<rparr>,
      TxtExtractor example_env]"

section \<open>Closed forms for the summary\<close>

text \<open>
  What the loops of \<open>get_moral_summary\<close> compute when no comparison raises, written
  without the loops: the items collected for the present keys, the entries of one
  foundation, the resulting \<open>moral_foundations\<close> dictionary, and the optional
  \<open>dominant_foundation\<close> and \<open>moral_density\<close> entries. \<open>field_of d f k\<close> is the value
  under key \<open>k\<close> of the dictionary stored under \<open>f\<close> in \<open>d\<close>, if there is one.
\<close>

definition present :: "pydict \<Rightarrow> string \<Rightarrow> string list \<Rightarrow> pydict" where
  "present sc suffix fs =
     concat (map (\<lambda>f. case map_of sc (f @ suffix) of None \<Rightarrow> [] | Some v \<Rightarrow> [(f, v)]) fs)"

definition entry :: "pyval option \<Rightarrow> pyval option \<Rightarrow> pydict" where
  "entry pv sv =
     (case pv of None \<Rightarrow> []
      | Some p \<Rightarrow>
          (case num_of p of None \<Rightarrow> []
           | Some r \<Rightarrow> [(''probability'', p), (''strength'', Str (categorize_score r))])) @
     (case sv of None \<Rightarrow> []
      | Some s \<Rightarrow>
          (case num_of s of None \<Rightarrow> []
           | Some r \<Rightarrow> [(''sentiment'', s), (''sentiment_direction'', Str (sentiment_direction r))]))"

definition entries :: "pydict \<Rightarrow> pydict \<Rightarrow> string list \<Rightarrow> pydict" where
  "entries ps ss fs =
     concat (map (\<lambda>f. if entry (map_of ps f) (map_of ss f) = [] then []
                       else [(f, Dict (entry (map_of ps f) (map_of ss f)))]) fs)"

definition mfd_entry :: "pyval option \<Rightarrow> pydict" where
  "mfd_entry x =
     (case x of None \<Rightarrow> []
      | Some v \<Rightarrow>
          (case num_of v of None \<Rightarrow> []
           | Some r \<Rightarrow> [(''score'', v), (''strength'', Str (categorize_score r))]))"

definition mfd_entries :: "pydict \<Rightarrow> string list \<Rightarrow> pydict" where
  "mfd_entries sc fs =
     concat (map (\<lambda>f. if mfd_entry (map_of sc f) = [] then []
                       else [(f, Dict (mfd_entry (map_of sc f)))]) fs)"

definition density_part :: "pydict \<Rightarrow> pydict" where
  "density_part sc =
     (case map_of sc ''moral_nonmoral_ratio'' of None \<Rightarrow> []
      | Some v \<Rightarrow>
          (case num_of v of None \<Rightarrow> []
           | Some r \<Rightarrow> [(''moral_density'',
                         Dict [(''ratio'', v),
                               (''interpretation'', Str (interpret_moral_density r))])]))"

definition dominant_part :: "pydict \<Rightarrow> pydict" where
  "dominant_part ps =
     (case max_item ps of Inl e \<Rightarrow> []
      | Inr d \<Rightarrow> [(''dominant_foundation'',
                   Dict [(''name'', Str (fst d)), (''probability'', snd d)])])"

text \<open>The number a \<open>max\<close> key stands for.\<close>

definition num_key :: "string \<times> pyval \<Rightarrow> real" where
  "num_key x = (case num_of (snd x) of None \<Rightarrow> 0 | Some r \<Rightarrow> r)"

definition field_of :: "pydict \<Rightarrow> string \<Rightarrow> string \<Rightarrow> pyval option" where
  "field_of d f k = (case map_of d f of Some (Dict e) \<Rightarrow> map_of e k | _ \<Rightarrow> None)"

section \<open>Strength bands\<close>

lemma strength_rank_categorize:
  "strength_rank (categorize_score s) =
     (if s \<ge> 0.15 then 4 else if s \<ge> 0.10 then 3 else if s \<ge> 0.05 then 2
      else if s \<ge> 0.01 then 1 else 0)"
  by (simp add: categorize_score_def strength_rank_def)

text \<open>
  Claim C4. \<open>_categorize_score\<close> is total and splits the scores into five bands exactly at
  the thresholds: very\_high iff \<open>s \<ge> 0.15\<close>, high iff \<open>0.10 \<le> s < 0.15\<close>, moderate iff
  \<open>0.05 \<le> s < 0.10\<close>, low iff \<open>0.01 \<le> s < 0.05\<close>, very\_low iff \<open>s < 0.01\<close>; so 0.05 is
  moderate and 0.10 is high. It is monotonic: a larger score never gets a weaker band.
\<close>

theorem categorize_score_bands:
  "(categorize_score s = ''very_high'' \<longleftrightarrow> s \<ge> 0.15) \<and>
   (categorize_score s = ''high'' \<longleftrightarrow> 0.10 \<le> s \<and> s < 0.15) \<and>
   (categorize_score s = ''moderate'' \<longleftrightarrow> 0.05 \<le> s \<and> s < 0.10) \<and>
   (categorize_score s = ''low'' \<longleftrightarrow> 0.01 \<le> s \<and> s < 0.05) \<and>
   (categorize_score s = ''very_low'' \<longleftrightarrow> s < 0.01) \<and>
   categorize_score 0.05 = ''moderate'' \<and> categorize_score 0.10 = ''high'' \<and>
   (s \<le> t \<longrightarrow> strength_rank (categorize_score s) \<le> strength_rank (categorize_score t))"
proof -
  have mono: "s \<le> t \<longrightarrow> strength_rank (categorize_score s) \<le> strength_rank (categorize_score t)"
    unfolding strength_rank_categorize by auto
  have bands: "(categorize_score s = ''very_high'' \<longleftrightarrow> s \<ge> 0.15) \<and>
   (categorize_score s = ''high'' \<longleftrightarrow> 0.10 \<le> s \<and> s < 0.15) \<and>
   (categorize_score s = ''moderate'' \<longleftrightarrow> 0.05 \<le> s \<and> s < 0.10) \<and>
   (categorize_score s = ''low'' \<longleftrightarrow> 0.01 \<le> s \<and> s < 0.05) \<and>
   (categorize_score s = ''very_low'' \<longleftrightarrow> s < 0.01)"
    by (auto simp add: categorize_score_def)
  have pts: "categorize_score 0.05 = ''moderate'' \<and> categorize_score 0.10 = ''high''"
    by (simp add: categorize_score_def)
  from mono bands pts show ?thesis by blast
qed

theorem categorize_score_bands_witness:
  "categorize_score 0.0999 = ''moderate'' \<and> categorize_score 0.12 = ''high'' \<and>
   (0.0999::real) \<le> 0.12 \<and>
   strength_rank (categorize_score 0.0999) \<le> strength_rank (categorize_score 0.12)"
  using categorize_score_bands [of "0.0999" "0.12"]
  by (simp add: categorize_score_def strength_rank_def)

section \<open>Density bands\<close>

text \<open>
  Claim C8. \<open>_interpret_moral_density\<close> is total and maps a ratio \<open>r\<close> to the very-high label
  iff \<open>r \<ge> 1.0\<close>, the high label iff \<open>0.5 \<le> r < 1.0\<close>, the moderate label iff
  \<open>0.2 \<le> r < 0.5\<close>, the low label iff \<open>0.1 \<le> r < 0.2\<close> and the very-low label iff
  \<open>r < 0.1\<close>.
\<close>

theorem interpret_moral_density_bands:
  "(interpret_moral_density r = ''very_high_moral_content'' \<longleftrightarrow> r \<ge> 1.0) \<and>
   (interpret_moral_density r = ''high_moral_content'' \<longleftrightarrow> 0.5 \<le> r \<and> r < 1.0) \<and>
   (interpret_moral_density r = ''moderate_moral_content'' \<longleftrightarrow> 0.2 \<le> r \<and> r < 0.5) \<and>
   (interpret_moral_density r = ''low_moral_content'' \<longleftrightarrow> 0.1 \<le> r \<and> r < 0.2) \<and>
   (interpret_moral_density r = ''very_low_moral_content'' \<longleftrightarrow> r < 0.1)"
  by (auto simp add: interpret_moral_density_def)

section \<open>The summary\<close>

lemma map_of_setitem: "map_of (setitem d k v) = (map_of d)(k \<mapsto> v)"
  by (induction d) (auto simp: fun_eq_iff)

lemma setitem_fresh: "k \<notin> fst ` set d \<Longrightarrow> setitem d k v = d @ [(k, v)]"
  by (induction d) auto

lemma setitem_twice: "setitem (setitem d k a) k b = setitem d k b"
  by (induction d) auto

lemma setitem_same: "map_of d k = Some v \<Longrightarrow> setitem d k v = d"
  by (induction d) (auto split: if_splits)

lemma getitem_Inr_iff: "getitem d k = Inr v \<longleftrightarrow> map_of d k = Some v"
  by (simp add: getitem_def split: option.splits)

lemma guarded_getitem:
  "(if contains d k then and_then (getitem d k) g else Inr z) =
     (case map_of d k of None \<Rightarrow> Inr z | Some v \<Rightarrow> g v)"
  by (simp add: contains_def getitem_def and_then_def split: option.splits)

lemma and_then_Inr: "and_then (Inr x) g = g x"
  by (simp add: and_then_def)

lemma and_then_Inr_iff:
  "and_then m g = Inr y \<longleftrightarrow> (\<exists>x. m = Inr x \<and> g x = Inr y)"
  by (cases m) (simp_all add: and_then_def)

lemma contains_Nil: "contains [] k = False"
  by (simp add: contains_def)

lemma contains_Cons: "contains ((k', v) # d) k \<longleftrightarrow> k' = k \<or> contains d k"
  by (simp add: contains_def)

lemma contains_append:
  "contains (xs @ ys) k \<longleftrightarrow> contains xs k \<or> contains ys k"
  by (auto simp add: contains_def map_add_Some_iff)

lemma present_Nil: "present sc suffix [] = []"
  by (simp add: present_def)

lemma present_Cons:
  "present sc suffix (f # fs) =
     (case map_of sc (f @ suffix) of None \<Rightarrow> [] | Some v \<Rightarrow> [(f, v)]) @ present sc suffix fs"
  by (simp add: present_def)

lemma map_of_present:
  "map_of (present sc suffix fs) f = (if f \<in> set fs then map_of sc (f @ suffix) else None)"
  by (induction fs) (auto simp: present_Nil present_Cons split: option.splits)

lemma collect_scores_eq:
  "distinct fs \<Longrightarrow> set fs \<inter> fst ` set ps = {} \<Longrightarrow> set fs \<inter> fst ` set ss = {} \<Longrightarrow>
   collect_scores sc fs (ps, ss) = Inr (ps @ present sc ''_p'' fs, ss @ present sc ''_sent'' fs)"
proof (induction fs arbitrary: ps ss)
  case Nil
  then show ?case by (simp add: present_Nil)
next
  case (Cons f fs)
  have fp: "f \<notin> fst ` set ps" and fs': "f \<notin> fst ` set ss"
    using Cons.prems by auto
  show ?case
  proof (cases "map_of sc (f @ ''_p'')")
    case pn: None
    show ?thesis
    proof (cases "map_of sc (f @ ''_sent'')")
      case None
      with pn Cons show ?thesis
        by (simp add: guarded_getitem and_then_def present_Cons)
    next
      case (Some s)
      with pn Cons fs' show ?thesis
        by (simp add: guarded_getitem and_then_def present_Cons setitem_fresh)
    qed
  next
    case ps: (Some p)
    show ?thesis
    proof (cases "map_of sc (f @ ''_sent'')")
      case None
      with ps Cons fp show ?thesis
        by (simp add: guarded_getitem and_then_def present_Cons setitem_fresh)
    next
      case (Some s)
      with ps Cons fs' fp show ?thesis
        by (simp add: guarded_getitem and_then_def present_Cons setitem_fresh)
    qed
  qed
qed

lemma collect_foundations:
  "collect_scores sc foundations ([], []) =
     Inr (present sc ''_p'' foundations, present sc ''_sent'' foundations)"
  using collect_scores_eq [of foundations "[]" "[]" sc] by (simp add: foundations_def)

text \<open>Numbers\<close>

lemma numeric_opt_simps:
  "numeric_opt None" "numeric_opt (Some v) = is_number v"
  by (simp_all add: numeric_opt_def)

lemma is_number_num_of: "is_number v \<Longrightarrow> \<exists>r. num_of v = Some r"
  by (simp add: is_number_def)

lemma foundation_summary_eq:
  "numeric_opt (map_of ps f) \<Longrightarrow> numeric_opt (map_of ss f) \<Longrightarrow>
   foundation_summary ps ss f = Inr (entry (map_of ps f) (map_of ss f))"
  by (auto simp add: foundation_summary_def guarded_getitem and_then_def entry_def
      numeric_opt_def is_number_def categorize_value_def sentiment_direction_value_def
      split: option.splits)

lemma entries_Cons:
  "entries ps ss (f # fs) =
     (if entry (map_of ps f) (map_of ss f) = [] then []
      else [(f, Dict (entry (map_of ps f) (map_of ss f)))]) @ entries ps ss fs"
  by (simp add: entries_def)

lemma entries_Nil: "entries ps ss [] = []"
  by (simp add: entries_def)

lemma set_foundation_eq:
  "map_of summary ''moral_foundations'' = Some (Dict mf) \<Longrightarrow>
   set_foundation summary f e =
     Inr (setitem summary ''moral_foundations'' (Dict (setitem mf f (Dict e))))"
  by (simp add: set_foundation_def getitem_def and_then_def)

lemma summarize_foundations_eq:
  "map_of summary ''moral_foundations'' = Some (Dict mf) \<Longrightarrow> distinct fs \<Longrightarrow>
   set fs \<inter> fst ` set mf = {} \<Longrightarrow>
   list_all (\<lambda>f. numeric_opt (map_of ps f) \<and> numeric_opt (map_of ss f)) fs \<Longrightarrow>
   summarize_foundations ps ss fs summary =
     Inr (setitem summary ''moral_foundations'' (Dict (mf @ entries ps ss fs)))"
proof (induction fs arbitrary: summary mf)
  case Nil
  then show ?case by (simp add: entries_Nil setitem_same)
next
  case (Cons f fs)
  have n: "numeric_opt (map_of ps f)" "numeric_opt (map_of ss f)"
    and ns: "list_all (\<lambda>f. numeric_opt (map_of ps f) \<and> numeric_opt (map_of ss f)) fs"
    using Cons.prems by simp_all
  note fse = foundation_summary_eq [OF n]
  show ?case
  proof (cases "entry (map_of ps f) (map_of ss f) = []")
    case True
    with Cons ns show ?thesis
      by (simp add: fse and_then_def entries_Cons)
  next
    case False
    let ?mf' = "setitem mf f (Dict (entry (map_of ps f) (map_of ss f)))"
    let ?s' = "setitem summary ''moral_foundations'' (Dict ?mf')"
    have fr: "f \<notin> fst ` set mf" using Cons.prems by auto
    have mf': "?mf' = mf @ [(f, Dict (entry (map_of ps f) (map_of ss f)))]"
      using fr by (simp add: setitem_fresh)
    have m: "map_of ?s' ''moral_foundations'' = Some (Dict ?mf')"
      by (simp add: map_of_setitem)
    have d: "set fs \<inter> fst ` set ?mf' = {}"
      using Cons.prems unfolding mf' by auto
    have "summarize_foundations ps ss fs ?s' =
        Inr (setitem ?s' ''moral_foundations'' (Dict (?mf' @ entries ps ss fs)))"
      using Cons.IH [OF m _ d ns] Cons.prems by simp
    with False Cons.prems show ?thesis
      by (simp add: fse and_then_def entries_Cons set_foundation_eq setitem_twice mf')
  qed
qed

lemma mfd_entries_Nil: "mfd_entries sc [] = []"
  by (simp add: mfd_entries_def)

lemma mfd_entries_Cons:
  "mfd_entries sc (f # fs) =
     (if mfd_entry (map_of sc f) = [] then [] else [(f, Dict (mfd_entry (map_of sc f)))]) @
     mfd_entries sc fs"
  by (simp add: mfd_entries_def)

lemma summarize_mfd_eq:
  "map_of summary ''moral_foundations'' = Some (Dict mf) \<Longrightarrow> distinct fs \<Longrightarrow>
   set fs \<inter> fst ` set mf = {} \<Longrightarrow>
   list_all (\<lambda>f. numeric_opt (map_of sc f)) fs \<Longrightarrow>
   summarize_mfd sc fs summary =
     Inr (setitem summary ''moral_foundations'' (Dict (mf @ mfd_entries sc fs)))"
proof (induction fs arbitrary: summary mf)
  case Nil
  then show ?case by (simp add: mfd_entries_Nil setitem_same)
next
  case (Cons f fs)
  have n: "numeric_opt (map_of sc f)"
    and ns: "list_all (\<lambda>f. numeric_opt (map_of sc f)) fs"
    using Cons.prems by simp_all
  show ?case
  proof (cases "map_of sc f")
    case None
    with Cons ns show ?thesis
      by (simp add: guarded_getitem and_then_def mfd_entries_Cons mfd_entry_def)
  next
    case (Some v)
    with n obtain r where r: "num_of v = Some r"
      by (auto simp add: numeric_opt_def is_number_def)
    let ?e = "[(''score'', v), (''strength'', Str (categorize_score r))]"
    let ?mf' = "setitem mf f (Dict ?e)"
    let ?s' = "setitem summary ''moral_foundations'' (Dict ?mf')"
    have me: "mfd_entry (Some v) = ?e" using r by (simp add: mfd_entry_def)
    have fr: "f \<notin> fst ` set mf" using Cons.prems by auto
    have mf': "?mf' = mf @ [(f, Dict ?e)]"
      using fr by (simp add: setitem_fresh)
    have m: "map_of ?s' ''moral_foundations'' = Some (Dict ?mf')"
      by (simp add: map_of_setitem)
    have d: "set fs \<inter> fst ` set ?mf' = {}"
      using Cons.prems unfolding mf' by auto
    have "summarize_mfd sc fs ?s' =
        Inr (setitem ?s' ''moral_foundations'' (Dict (?mf' @ mfd_entries sc fs)))"
      using Cons.IH [OF m _ d ns] Cons.prems by simp
    with Some r Cons.prems show ?thesis
      by (simp add: guarded_getitem and_then_def mfd_entries_Cons me set_foundation_eq
          setitem_twice mf' categorize_value_def)
  qed
qed

lemma add_moral_density_eq:
  "''moral_density'' \<notin> fst ` set summary \<Longrightarrow>
   numeric_opt (map_of sc ''moral_nonmoral_ratio'') \<Longrightarrow>
   add_moral_density sc summary = Inr (summary @ density_part sc)"
  by (auto simp add: add_moral_density_def guarded_getitem density_part_def setitem_fresh
      numeric_opt_def is_number_def interpret_density_value_def and_then_def
      split: option.splits)

lemma py_gt_numbers:
  "is_number (snd y) \<Longrightarrow> is_number (snd b) \<Longrightarrow>
   py_gt (snd y) (snd b) = Inr (num_key y > num_key b)"
  by (auto simp add: py_gt_def is_number_def num_key_def)

lemma max_loop_foldl:
  "is_number (snd b) \<Longrightarrow> list_all (\<lambda>y. is_number (snd y)) ys \<Longrightarrow>
   max_loop b ys = Inr (foldl (\<lambda>best y. if num_key y > num_key best then y else best) b ys)"
proof (induction ys arbitrary: b)
  case Nil
  show ?case by simp
next
  case (Cons y ys)
  have y: "is_number (snd y)" and ys: "list_all (\<lambda>y. is_number (snd y)) ys"
    using Cons.prems by simp_all
  have g: "py_gt (snd y) (snd b) = Inr (num_key y > num_key b)"
    using py_gt_numbers [OF y Cons.prems(1)] by simp
  have n: "is_number (snd (if num_key y > num_key b then y else b))"
    using y Cons.prems(1) by simp
  show ?case using Cons.IH [OF n ys] g by (simp add: and_then_def)
qed

lemma foldl_best:
  fixes key :: "'a \<Rightarrow> real"
  shows "\<exists>i<length (b # ys).
     foldl (\<lambda>best y. if key y > key best then y else best) b ys = (b # ys) ! i \<and>
     (\<forall>j<length (b # ys). key ((b # ys) ! j) \<le> key ((b # ys) ! i)) \<and>
     (\<forall>j<i. key ((b # ys) ! j) < key ((b # ys) ! i))"
proof (induction ys rule: rev_induct)
  case Nil
  then show ?case by simp
next
  case (snoc y ys)
  let ?step = "\<lambda>best y. if key y > key best then y else best"
  from snoc obtain i where i: "i < length (b # ys)"
    and r: "foldl ?step b ys = (b # ys) ! i"
    and le: "\<forall>j<length (b # ys). key ((b # ys) ! j) \<le> key ((b # ys) ! i)"
    and lt: "\<forall>j<i. key ((b # ys) ! j) < key ((b # ys) ! i)"
    by blast
  have nth_old: "\<And>j. j < length (b # ys) \<Longrightarrow> (b # ys @ [y]) ! j = (b # ys) ! j"
    by (metis append_Cons nth_append)
  have nth_new: "(b # ys @ [y]) ! length (b # ys) = y"
    by (metis append_Cons nth_append_length)
  show ?case
  proof (cases "key y > key ((b # ys) ! i)")
    case True
    have "foldl ?step b (ys @ [y]) = (b # ys @ [y]) ! length (b # ys)"
      using True r nth_new by simp
    moreover have "\<forall>j<length (b # ys @ [y]).
        key ((b # ys @ [y]) ! j) \<le> key ((b # ys @ [y]) ! length (b # ys))"
    proof (intro allI impI)
      fix j assume "j < length (b # ys @ [y])"
      then consider "j < length (b # ys)" | "j = length (b # ys)" by fastforce
      then show "key ((b # ys @ [y]) ! j) \<le> key ((b # ys @ [y]) ! length (b # ys))"
      proof cases
        case 1
        then have "key ((b # ys) ! j) \<le> key ((b # ys) ! i)" using le by blast
        then show ?thesis using True 1 nth_old [of j] nth_new by simp
      next
        case 2
        then show ?thesis by simp
      qed
    qed
    moreover have "\<forall>j<length (b # ys).
        key ((b # ys @ [y]) ! j) < key ((b # ys @ [y]) ! length (b # ys))"
    proof (intro allI impI)
      fix j assume j: "j < length (b # ys)"
      then have "key ((b # ys) ! j) \<le> key ((b # ys) ! i)" using le by blast
      then show "key ((b # ys @ [y]) ! j) < key ((b # ys @ [y]) ! length (b # ys))"
        using True j nth_old [of j] nth_new by simp
    qed
    ultimately show ?thesis
      by (intro exI [of _ "length (b # ys)"]) simp
  next
    case False
    have "foldl ?step b (ys @ [y]) = (b # ys @ [y]) ! i"
      using False r i nth_old [of i] by simp
    moreover have "\<forall>j<length (b # ys @ [y]). key ((b # ys @ [y]) ! j) \<le> key ((b # ys @ [y]) ! i)"
    proof (intro allI impI)
      fix j assume "j < length (b # ys @ [y])"
      then consider "j < length (b # ys)" | "j = length (b # ys)" by fastforce
      then show "key ((b # ys @ [y]) ! j) \<le> key ((b # ys @ [y]) ! i)"
      proof cases
        case 1
        then show ?thesis using le i nth_old [of j] nth_old [of i] by simp
      next
        case 2
        then show ?thesis using False i nth_old [of i] nth_new by simp
      qed
    qed
    moreover have "\<forall>j<i. key ((b # ys @ [y]) ! j) < key ((b # ys @ [y]) ! i)"
    proof (intro allI impI)
      fix j assume j: "j < i"
      then have "j < length (b # ys)" using i by simp
      then show "key ((b # ys @ [y]) ! j) < key ((b # ys @ [y]) ! i)"
        using lt j i nth_old [of j] nth_old [of i] by simp
    qed
    ultimately show ?thesis using i
      by (intro exI [of _ i]) simp
  qed
qed

lemma max_item_first:
  "xs \<noteq> [] \<Longrightarrow> list_all (\<lambda>y. is_number (snd y)) xs \<Longrightarrow>
   \<exists>i<length xs. max_item xs = Inr (xs ! i) \<and>
     (\<forall>j<length xs. num_key (xs ! j) \<le> num_key (xs ! i)) \<and>
     (\<forall>j<i. num_key (xs ! j) < num_key (xs ! i))"
proof (cases xs)
  case Nil
  assume "xs \<noteq> []"
  with Nil show ?thesis by simp
next
  case (Cons b ys)
  assume "list_all (\<lambda>y. is_number (snd y)) xs"
  then have "max_loop b ys = Inr (foldl (\<lambda>best y. if num_key y > num_key best then y else best) b ys)"
    unfolding Cons by (intro max_loop_foldl) simp_all
  then show ?thesis unfolding Cons max_item.simps using foldl_best [of b ys num_key] by simp
qed

text \<open>Frames: what the later steps leave alone.\<close>

lemma set_foundation_frame:
  "set_foundation s f e = Inr s' \<Longrightarrow> \<exists>d. s' = setitem s ''moral_foundations'' (Dict d)"
  by (auto simp add: set_foundation_def getitem_def and_then_def
      split: option.splits pyval.splits)

lemma foundation_step_frame:
  "(if e \<noteq> [] then set_foundation s f e else Inr s) = Inr s' \<Longrightarrow>
   s' = s \<or> (\<exists>d. s' = setitem s ''moral_foundations'' (Dict d))"
  using set_foundation_frame by (auto split: if_splits)

lemma summarize_foundations_frame:
  "summarize_foundations ps ss fs s = Inr s' \<Longrightarrow>
   s' = s \<or> (\<exists>d. s' = setitem s ''moral_foundations'' (Dict d))"
proof (induction fs arbitrary: s)
  case Nil
  then show ?case by simp
next
  case (Cons f fs)
  from Cons.prems obtain e s1
    where a: "(if e \<noteq> [] then set_foundation s f e else Inr s) = Inr s1"
      and b: "summarize_foundations ps ss fs s1 = Inr s'"
    by (auto simp add: and_then_Inr_iff)
  from foundation_step_frame [OF a] Cons.IH [OF b] show ?case
    by (auto simp add: setitem_twice)
qed

lemma summarize_mfd_frame:
  "summarize_mfd sc fs s = Inr s' \<Longrightarrow>
   s' = s \<or> (\<exists>d. s' = setitem s ''moral_foundations'' (Dict d))"
proof (induction fs arbitrary: s)
  case Nil
  then show ?case by simp
next
  case (Cons f fs)
  from Cons.prems obtain s1
    where a: "(if contains sc f
        then and_then (getitem sc f)
               (\<lambda>v. and_then (categorize_value v)
                      (\<lambda>strength. set_foundation s f
                                     [(''score'', v), (''strength'', Str strength)]))
        else Inr s) = Inr s1"
      and b: "summarize_mfd sc fs s1 = Inr s'"
    by (auto simp add: and_then_Inr_iff)
  from a have "s1 = s \<or> (\<exists>d. s1 = setitem s ''moral_foundations'' (Dict d))"
    using set_foundation_frame by (auto simp add: and_then_Inr_iff split: if_splits)
  with Cons.IH [OF b] show ?case
    by (auto simp add: setitem_twice)
qed

lemma add_moral_density_frame:
  "add_moral_density sc s = Inr s' \<Longrightarrow> s' = s \<or> (\<exists>v. s' = setitem s ''moral_density'' v)"
  by (auto simp add: add_moral_density_def and_then_Inr_iff split: if_splits)

lemma frame_map_of:
  "s' = s \<or> (\<exists>v. s' = setitem s k v) \<Longrightarrow> k' \<noteq> k \<Longrightarrow> map_of s' k' = map_of s k'"
  by (auto simp add: map_of_setitem)

lemma frame_dict:
  "s' = s \<or> (\<exists>d. s' = setitem s k (Dict d)) \<Longrightarrow> map_of s k = Some (Dict d0) \<Longrightarrow>
   \<exists>d. map_of s' k = Some (Dict d)"
  by (auto simp add: map_of_setitem)

text \<open>Records whose read values are numbers\<close>

lemma reads_numbers_emfd:
  assumes "reads_numbers sc ''emfd''"
  shows "f \<in> set foundations \<Longrightarrow> numeric_opt (map_of sc (f @ ''_p''))"
    and "f \<in> set foundations \<Longrightarrow> numeric_opt (map_of sc (f @ ''_sent''))"
    and "numeric_opt (map_of sc ''moral_nonmoral_ratio'')"
  using assms by (auto simp add: reads_numbers_def read_keys_def list_all_iff)

lemma reads_numbers_mfd:
  assumes "reads_numbers sc dt" and "dt = ''mfd'' \<or> dt = ''mfd2''"
  shows "f \<in> set mfd_foundations \<Longrightarrow> numeric_opt (map_of sc f)"
    and "numeric_opt (map_of sc ''moral_nonmoral_ratio'')"
  using assms by (auto simp add: reads_numbers_def read_keys_def list_all_iff)

lemma set_present:
  "(f, v) \<in> set (present sc suffix fs) \<longleftrightarrow> f \<in> set fs \<and> map_of sc (f @ suffix) = Some v"
  by (induction fs) (auto simp: present_Nil present_Cons split: option.splits)

lemma present_numbers:
  "\<forall>f\<in>set fs. numeric_opt (map_of sc (f @ suffix)) \<Longrightarrow>
   list_all (\<lambda>y. is_number (snd y)) (present sc suffix fs)"
  unfolding list_all_iff
proof
  fix y assume a: "\<forall>f\<in>set fs. numeric_opt (map_of sc (f @ suffix))"
    and y: "y \<in> set (present sc suffix fs)"
  obtain f v where fv: "y = (f, v)" by (cases y)
  with y have "f \<in> set fs" "map_of sc (f @ suffix) = Some v" by (simp_all add: set_present)
  with a have "is_number v" by (auto simp add: numeric_opt_def)
  with fv show "is_number (snd y)" by simp
qed

lemma present_numeric_opt:
  "\<forall>f\<in>set fs. numeric_opt (map_of sc (f @ suffix)) \<Longrightarrow>
   numeric_opt (map_of (present sc suffix fs) f)"
  by (simp add: map_of_present numeric_opt_def)

lemma dominant_step:
  "(if ps \<noteq> []
    then and_then (max_item ps)
           (\<lambda>d. Inr (setitem [(''dictionary_used'', Str dt), (''moral_foundations'', Dict [])]
                        ''dominant_foundation''
                        (Dict [(''name'', Str (fst d)), (''probability'', snd d)])))
    else Inr [(''dictionary_used'', Str dt), (''moral_foundations'', Dict [])]) = Inr s1 \<Longrightarrow>
   s1 = [(''dictionary_used'', Str dt), (''moral_foundations'', Dict [])] @ dominant_part ps \<and>
   (ps \<noteq> [] \<longrightarrow> (\<exists>d. max_item ps = Inr d))"
  by (cases ps) (auto simp add: and_then_Inr_iff dominant_part_def)

lemma get_moral_summary_emfd_steps:
  assumes "get_moral_summary sc ''emfd'' = Inr s"
  shows "\<exists>s2. summarize_foundations (present sc ''_p'' foundations)
                 (present sc ''_sent'' foundations) foundations
                 ([(''dictionary_used'', Str ''emfd''), (''moral_foundations'', Dict [])] @
                  dominant_part (present sc ''_p'' foundations)) = Inr s2 \<and>
               add_moral_density sc s2 = Inr s \<and>
               (present sc ''_p'' foundations \<noteq> [] \<longrightarrow>
                  (\<exists>d. max_item (present sc ''_p'' foundations) = Inr d))"
proof -
  let ?ps = "present sc ''_p'' foundations"
  let ?ss = "present sc ''_sent'' foundations"
  let ?base = "[(''dictionary_used'', Str ''emfd''), (''moral_foundations'', Dict [])]"
  from assms obtain s1 s2
    where a: "(if ?ps \<noteq> []
        then and_then (max_item ?ps)
               (\<lambda>d. Inr (setitem ?base ''dominant_foundation''
                            (Dict [(''name'', Str (fst d)), (''probability'', snd d)])))
        else Inr ?base) = Inr s1"
      and b: "summarize_foundations ?ps ?ss foundations s1 = Inr s2"
      and c: "add_moral_density sc s2 = Inr s"
    by (auto simp add: get_moral_summary_def collect_foundations Let_def and_then_Inr
        and_then_Inr_iff)
  from dominant_step [OF a] b c show ?thesis by auto
qed

lemma get_moral_summary_mfd_steps:
  assumes "get_moral_summary sc dt = Inr s" and "dt = ''mfd'' \<or> dt = ''mfd2''"
  shows "\<exists>s1. summarize_mfd sc mfd_foundations
                 [(''dictionary_used'', Str dt), (''moral_foundations'', Dict [])] = Inr s1 \<and>
               add_moral_density sc s1 = Inr s"
  using assms by (auto simp add: get_moral_summary_def Let_def and_then_Inr_iff)

lemma get_moral_summary_other:
  "dt \<noteq> ''emfd'' \<Longrightarrow> dt \<noteq> ''mfd'' \<Longrightarrow> dt \<noteq> ''mfd2'' \<Longrightarrow>
   get_moral_summary sc dt = Inr [(''dictionary_used'', Str dt), (''moral_foundations'', Dict [])]"
  by (simp add: get_moral_summary_def)

lemma dominant_part_keys:
  "k \<noteq> ''dominant_foundation'' \<Longrightarrow> map_of (dominant_part ps) k = None"
  by (simp add: dominant_part_def split: sum.splits)

lemma get_moral_summary_keys:
  assumes "get_moral_summary sc dt = Inr s"
  shows "map_of s ''dictionary_used'' = Some (Str dt) \<and>
         (\<exists>mf. map_of s ''moral_foundations'' = Some (Dict mf))"
proof -
  consider "dt = ''emfd''" | "dt = ''mfd'' \<or> dt = ''mfd2''"
    | "dt \<noteq> ''emfd''" "dt \<noteq> ''mfd''" "dt \<noteq> ''mfd2''"
    by blast
  then show ?thesis
  proof cases
    case 1
    let ?s1 = "[(''dictionary_used'', Str ''emfd''), (''moral_foundations'', Dict [])] @
               dominant_part (present sc ''_p'' foundations)"
    from assms 1 get_moral_summary_emfd_steps [of sc s] obtain s2
      where b: "summarize_foundations (present sc ''_p'' foundations)
                 (present sc ''_sent'' foundations) foundations ?s1 = Inr s2"
        and c: "add_moral_density sc s2 = Inr s"
      by auto
    note fb = summarize_foundations_frame [OF b]
    note fc = add_moral_density_frame [OF c]
    have "map_of s ''dictionary_used'' = map_of s2 ''dictionary_used''"
      using frame_map_of [OF fc] by simp
    also have "\<dots> = map_of ?s1 ''dictionary_used''"
      using frame_map_of [OF _ , of s2 ?s1 "''moral_foundations''" "''dictionary_used''"] fb
      by auto
    finally have du: "map_of s ''dictionary_used'' = Some (Str dt)" using 1 by simp
    have "map_of ?s1 ''moral_foundations'' = Some (Dict [])" by simp
    from frame_dict [OF fb this] obtain d where "map_of s2 ''moral_foundations'' = Some (Dict d)"
      by blast
    moreover have "map_of s ''moral_foundations'' = map_of s2 ''moral_foundations''"
      using frame_map_of [OF fc] by simp
    ultimately show ?thesis using du by simp
  next
    case 2
    let ?s0 = "[(''dictionary_used'', Str dt), (''moral_foundations'', Dict [])]"
    from get_moral_summary_mfd_steps [OF assms 2] obtain s1
      where b: "summarize_mfd sc mfd_foundations ?s0 = Inr s1"
        and c: "add_moral_density sc s1 = Inr s"
      by auto
    note fb = summarize_mfd_frame [OF b]
    note fc = add_moral_density_frame [OF c]
    have "map_of s ''dictionary_used'' = map_of s1 ''dictionary_used''"
      using frame_map_of [OF fc] by simp
    also have "\<dots> = map_of ?s0 ''dictionary_used''"
      using frame_map_of [OF _ , of s1 ?s0 "''moral_foundations''" "''dictionary_used''"] fb
      by auto
    finally have du: "map_of s ''dictionary_used'' = Some (Str dt)" by simp
    have "map_of ?s0 ''moral_foundations'' = Some (Dict [])" by simp
    from frame_dict [OF fb this] obtain d where "map_of s1 ''moral_foundations'' = Some (Dict d)"
      by blast
    moreover have "map_of s ''moral_foundations'' = map_of s1 ''moral_foundations''"
      using frame_map_of [OF fc] by simp
    ultimately show ?thesis using du by simp
  next
    case 3
    with assms get_moral_summary_other [of dt sc] show ?thesis by auto
  qed
qed

lemma get_moral_summary_dominant:
  assumes "get_moral_summary sc ''emfd'' = Inr s"
  shows "map_of s ''dominant_foundation'' =
           map_of (dominant_part (present sc ''_p'' foundations)) ''dominant_foundation''"
proof -
  let ?s1 = "[(''dictionary_used'', Str ''emfd''), (''moral_foundations'', Dict [])] @
             dominant_part (present sc ''_p'' foundations)"
  from get_moral_summary_emfd_steps [OF assms] obtain s2
    where b: "summarize_foundations (present sc ''_p'' foundations)
               (present sc ''_sent'' foundations) foundations ?s1 = Inr s2"
      and c: "add_moral_density sc s2 = Inr s"
    by auto
  note fb = summarize_foundations_frame [OF b]
  note fc = add_moral_density_frame [OF c]
  have "map_of s ''dominant_foundation'' = map_of s2 ''dominant_foundation''"
    using frame_map_of [OF fc] by simp
  also have "\<dots> = map_of ?s1 ''dominant_foundation''"
    using frame_map_of [OF _ , of s2 ?s1 "''moral_foundations''" "''dominant_foundation''"] fb
    by auto
  finally show ?thesis by simp
qed

lemma get_moral_summary_emfd:
  assumes "reads_numbers sc ''emfd''"
  shows "get_moral_summary sc ''emfd'' =
     Inr ([(''dictionary_used'', Str ''emfd''),
           (''moral_foundations'',
            Dict (entries (present sc ''_p'' foundations) (present sc ''_sent'' foundations)
                    foundations))] @
          dominant_part (present sc ''_p'' foundations) @ density_part sc)"
proof -
  let ?ps = "present sc ''_p'' foundations"
  let ?ss = "present sc ''_sent'' foundations"
  note rn = reads_numbers_emfd [OF assms]
  have df: "distinct foundations" by (simp add: foundations_def)
  have np: "\<forall>f\<in>set foundations. numeric_opt (map_of sc (f @ ''_p''))"
    and ns: "\<forall>f\<in>set foundations. numeric_opt (map_of sc (f @ ''_sent''))"
    using rn by simp_all
  have la: "list_all (\<lambda>f. numeric_opt (map_of ?ps f) \<and> numeric_opt (map_of ?ss f)) foundations"
    unfolding list_all_iff
    using present_numeric_opt [OF np] present_numeric_opt [OF ns] by simp
  show ?thesis
  proof (cases ?ps)
    case Nil
    let ?s1 = "[(''dictionary_used'', Str ''emfd''), (''moral_foundations'', Dict [])]"
    have "summarize_foundations ?ps ?ss foundations ?s1 =
        Inr (setitem ?s1 ''moral_foundations'' (Dict ([] @ entries ?ps ?ss foundations)))"
      by (rule summarize_foundations_eq) (simp_all add: df la)
    then show ?thesis using Nil rn(3)
      by (simp add: get_moral_summary_def collect_foundations and_then_def dominant_part_def
          add_moral_density_eq)
  next
    case (Cons x xs)
    then have ne: "?ps \<noteq> []" by simp
    from max_item_first [OF ne present_numbers [OF np]] obtain d
      where d: "max_item ?ps = Inr d" by blast
    let ?s1 = "[(''dictionary_used'', Str ''emfd''), (''moral_foundations'', Dict []),
                (''dominant_foundation'', Dict [(''name'', Str (fst d)), (''probability'', snd d)])]"
    have "summarize_foundations ?ps ?ss foundations ?s1 =
        Inr (setitem ?s1 ''moral_foundations'' (Dict ([] @ entries ?ps ?ss foundations)))"
      by (rule summarize_foundations_eq) (simp_all add: df la)
    then show ?thesis using ne d rn(3)
      by (simp add: get_moral_summary_def collect_foundations and_then_def dominant_part_def
          add_moral_density_eq)
  qed
qed

lemma get_moral_summary_mfd:
  assumes "reads_numbers sc dt" and dt: "dt = ''mfd'' \<or> dt = ''mfd2''"
  shows "get_moral_summary sc dt =
     Inr ([(''dictionary_used'', Str dt),
           (''moral_foundations'', Dict (mfd_entries sc mfd_foundations))] @ density_part sc)"
proof -
  note rn = reads_numbers_mfd [OF assms]
  let ?s0 = "[(''dictionary_used'', Str dt), (''moral_foundations'', Dict [])]"
  have df: "distinct mfd_foundations" by (simp add: mfd_foundations_def)
  have la: "list_all (\<lambda>f. numeric_opt (map_of sc f)) mfd_foundations"
    unfolding list_all_iff using rn(1) by simp
  have "summarize_mfd sc mfd_foundations ?s0 =
      Inr (setitem ?s0 ''moral_foundations'' (Dict ([] @ mfd_entries sc mfd_foundations)))"
    by (rule summarize_mfd_eq) (simp_all add: df la)
  then show ?thesis using dt rn(2)
    by (auto simp add: get_moral_summary_def and_then_def add_moral_density_eq)
qed

text \<open>Reading the closed forms\<close>

lemma density_part_keys:
  "k \<noteq> ''moral_density'' \<Longrightarrow> map_of (density_part sc) k = None"
  by (simp add: density_part_def split: option.splits)

lemma density_part_ratio:
  "numeric_opt (map_of sc ''moral_nonmoral_ratio'') \<Longrightarrow>
   field_of (density_part sc) ''moral_density'' ''ratio'' = map_of sc ''moral_nonmoral_ratio'' \<and>
   (contains (density_part sc) ''moral_density'' \<longleftrightarrow> contains sc ''moral_nonmoral_ratio'')"
  by (auto simp add: density_part_def field_of_def contains_def numeric_opt_def is_number_def
      split: option.splits)

lemma entry_fields:
  assumes "numeric_opt pv" and "numeric_opt sv"
  shows "map_of (entry pv sv) ''probability'' = pv"
    and "map_of (entry pv sv) ''sentiment'' = sv"
    and "map_of (entry pv sv) ''strength'' = None \<longleftrightarrow> pv = None"
    and "map_of (entry pv sv) ''sentiment_direction'' = None \<longleftrightarrow> sv = None"
    and "entry pv sv = [] \<longleftrightarrow> pv = None \<and> sv = None"
  using assms
  by (auto simp add: entry_def numeric_opt_def is_number_def split: option.splits)

lemma map_of_entries:
  "map_of (entries ps ss fs) f =
     (if f \<in> set fs \<and> entry (map_of ps f) (map_of ss f) \<noteq> []
      then Some (Dict (entry (map_of ps f) (map_of ss f))) else None)"
  by (induction fs) (auto simp: entries_Nil entries_Cons)

lemma field_of_entries:
  "f \<in> set fs \<Longrightarrow> field_of (entries ps ss fs) f k = map_of (entry (map_of ps f) (map_of ss f)) k"
  by (simp add: field_of_def map_of_entries)

lemma map_of_mfd_entries:
  "map_of (mfd_entries sc fs) f =
     (if f \<in> set fs \<and> mfd_entry (map_of sc f) \<noteq> []
      then Some (Dict (mfd_entry (map_of sc f))) else None)"
  by (induction fs) (auto simp: mfd_entries_Nil mfd_entries_Cons)

lemma mfd_entry_fields:
  assumes "numeric_opt x"
  shows "map_of (mfd_entry x) ''score'' = x" and "mfd_entry x = [] \<longleftrightarrow> x = None"
  using assms
  by (auto simp add: mfd_entry_def numeric_opt_def is_number_def split: option.splits)

lemma dominant_part_numbers:
  assumes "list_all (\<lambda>y. is_number (snd y)) ps"
  shows "(contains (dominant_part ps) ''dominant_foundation'' \<longleftrightarrow> ps \<noteq> []) \<and>
         (\<forall>d. map_of (dominant_part ps) ''dominant_foundation'' = Some d \<longrightarrow>
            (\<exists>f v. (f, v) \<in> set ps \<and> d = Dict [(''name'', Str f), (''probability'', v)]))"
proof (cases "ps = []")
  case True
  then show ?thesis by (simp add: dominant_part_def contains_def)
next
  case False
  from max_item_first [OF False assms] obtain i
    where i: "i < length ps" and m: "max_item ps = Inr (ps ! i)"
    by blast
  obtain f v where fv: "ps ! i = (f, v)" by (cases "ps ! i")
  with i have "(f, v) \<in> set ps" by (metis nth_mem)
  with False m fv show ?thesis by (auto simp add: dominant_part_def contains_def)
qed

text \<open>
  Claim C10 says that \<open>get_moral_summary\<close> never raises, whatever the score dictionary. A
  record whose \<open>care_p\<close> is the string \<open>'high'\<close> reaches \<open>_categorize_score('high')\<close>,
  whose first comparison raises \<open>TypeError\<close>: \<open>'>=' not supported between instances of
  'str' and 'float'\<close>.
\<close>

theorem summary_type_error_counterexample:
  "get_moral_summary [(''care_p'', Str ''high'')] ''emfd'' =
     Inl (not_supported ''>='' ''str'' ''float'')"
  by (simp add: get_moral_summary_def foundations_def contains_Nil contains_Cons getitem_def
      and_then_def foundation_summary_def categorize_value_def)

text \<open>
  Claim C10, amended. For every score dictionary in which every value that
  \<open>get_moral_summary\<close> reads for the given \<open>dict_type\<close> is a number, and every \<open>dict_type\<close>
  string, recognised or not, \<open>get_moral_summary\<close> raises nothing; and whenever it
  returns, for any score dictionary, the result has \<open>dictionary_used\<close> equal to the
  \<open>dict_type\<close> argument and \<open>moral_foundations\<close> mapped to a (possibly empty) dictionary.
\<close>

theorem get_moral_summary_returns:
  "(reads_numbers sc dict_type \<longrightarrow> (\<exists>s. get_moral_summary sc dict_type = Inr s)) \<and>
   (\<forall>s. get_moral_summary sc dict_type = Inr s \<longrightarrow>
      getitem s ''dictionary_used'' = Inr (Str dict_type) \<and>
      (\<exists>mf. getitem s ''moral_foundations'' = Inr (Dict mf)))"
proof (intro conjI impI allI)
  assume rn: "reads_numbers sc dict_type"
  consider "dict_type = ''emfd''" | "dict_type = ''mfd'' \<or> dict_type = ''mfd2''"
    | "dict_type \<noteq> ''emfd''" "dict_type \<noteq> ''mfd''" "dict_type \<noteq> ''mfd2''"
    by blast
  then show "\<exists>s. get_moral_summary sc dict_type = Inr s"
  proof cases
    case 1
    with rn get_moral_summary_emfd [of sc] show ?thesis by simp
  next
    case 2
    from get_moral_summary_mfd [OF rn 2] show ?thesis by simp
  next
    case 3
    then show ?thesis by (simp add: get_moral_summary_other)
  qed
next
  fix s assume "get_moral_summary sc dict_type = Inr s"
  from get_moral_summary_keys [OF this]
  show "getitem s ''dictionary_used'' = Inr (Str dict_type)"
    and "\<exists>mf. getitem s ''moral_foundations'' = Inr (Dict mf)"
    by (auto simp add: getitem_def)
qed

text \<open>
  An int probability and a string under a key that is not read: the summary is returned.
\<close>

theorem get_moral_summary_returns_witness:
  "reads_numbers [(''care_p'', IntV 1), (''doc'', Str ''x''), (''care_sent'', Num (- 0.1))] ''emfd'' \<and>
   (\<exists>s mf. get_moral_summary
              [(''care_p'', IntV 1), (''doc'', Str ''x''), (''care_sent'', Num (- 0.1))] ''emfd'' =
              Inr s \<and>
      getitem s ''dictionary_used'' = Inr (Str ''emfd'') \<and>
      getitem s ''moral_foundations'' = Inr (Dict mf))"
proof -
  let ?sc = "[(''care_p'', IntV 1), (''doc'', Str ''x''), (''care_sent'', Num (- 0.1))]"
  have h: "reads_numbers ?sc ''emfd''"
    by (simp add: reads_numbers_def read_keys_def foundations_def numeric_opt_def is_number_def)
  note t = get_moral_summary_returns [of ?sc "''emfd''"]
  from t h obtain s where s: "get_moral_summary ?sc ''emfd'' = Inr s" by blast
  with t obtain mf where "getitem s ''dictionary_used'' = Inr (Str ''emfd'')"
    "getitem s ''moral_foundations'' = Inr (Dict mf)"
    by blast
  with h s show ?thesis by blast
qed

text \<open>
  Claim C5. For an eMFD score record with the five probability fields, the summary's
  \<open>dominant_foundation\<close> names the foundation with the highest probability, the first
  one in the order care, fairness, loyalty, authority, sanctity among equals, and reports
  that foundation's probability: the index \<open>i\<close> it names has a value no smaller than any
  other and strictly greater than every earlier one. This holds of every summary the
  function returns, and it returns one whenever the other values it reads are numbers.
\<close>

theorem dominant_foundation_highest:
  assumes "getitem sc ''care_p'' = Inr v0" and "num_of v0 = Some p0"
    and "getitem sc ''fairness_p'' = Inr v1" and "num_of v1 = Some p1"
    and "getitem sc ''loyalty_p'' = Inr v2" and "num_of v2 = Some p2"
    and "getitem sc ''authority_p'' = Inr v3" and "num_of v3 = Some p3"
    and "getitem sc ''sanctity_p'' = Inr v4" and "num_of v4 = Some p4"
  shows "(reads_numbers sc ''emfd'' \<longrightarrow> (\<exists>s. get_moral_summary sc ''emfd'' = Inr s)) \<and>
     (\<forall>s. get_moral_summary sc ''emfd'' = Inr s \<longrightarrow>
        (\<exists>i<5. getitem s ''dominant_foundation'' =
                  Inr (Dict [(''name'', Str (foundations ! i)),
                             (''probability'', [v0, v1, v2, v3, v4] ! i)]) \<and>
               (\<forall>j<5. [p0, p1, p2, p3, p4] ! j \<le> [p0, p1, p2, p3, p4] ! i) \<and>
               (\<forall>j<i. [p0, p1, p2, p3, p4] ! j < [p0, p1, p2, p3, p4] ! i)))"
proof (intro conjI impI allI)
  assume "reads_numbers sc ''emfd''"
  from get_moral_summary_emfd [OF this] show "\<exists>s. get_moral_summary sc ''emfd'' = Inr s"
    by simp
next
  fix s assume r: "get_moral_summary sc ''emfd'' = Inr s"
  let ?ps = "[(''care'', v0), (''fairness'', v1), (''loyalty'', v2), (''authority'', v3),
              (''sanctity'', v4)]"
  let ?vs = "[v0, v1, v2, v3, v4]"
  let ?rs = "[p0, p1, p2, p3, p4]"
  have ps: "present sc ''_p'' foundations = ?ps"
    using assms by (simp add: present_def foundations_def getitem_Inr_iff)
  have ne: "?ps \<noteq> []" by simp
  have nums: "list_all (\<lambda>y. is_number (snd y)) ?ps"
    using assms by (simp add: is_number_def)
  from max_item_first [OF ne nums] obtain i where il: "i < length ?ps"
    and m: "max_item ?ps = Inr (?ps ! i)"
    and lel: "\<forall>j<length ?ps. num_key (?ps ! j) \<le> num_key (?ps ! i)"
    and lt: "\<forall>j<i. num_key (?ps ! j) < num_key (?ps ! i)"
    by blast
  have i: "i < 5" using il by simp
  have fst_nth: "\<And>j. j < 5 \<Longrightarrow> fst (?ps ! j) = foundations ! j"
    by (simp add: foundations_def nth_Cons split: nat.splits)
  have snd_nth: "\<And>j. j < 5 \<Longrightarrow> snd (?ps ! j) = ?vs ! j"
    by (simp add: nth_Cons split: nat.splits)
  have key_nth: "\<And>j. j < 5 \<Longrightarrow> num_key (?ps ! j) = ?rs ! j"
    using assms by (simp add: num_key_def nth_Cons split: nat.splits)
  have le': "\<forall>j<5. ?rs ! j \<le> ?rs ! i"
  proof (intro allI impI)
    fix j :: nat assume j: "j < 5"
    then have "j < length ?ps" by simp
    with lel have "num_key (?ps ! j) \<le> num_key (?ps ! i)" by blast
    then show "?rs ! j \<le> ?rs ! i" using key_nth [OF j] key_nth [OF i] by simp
  qed
  have lt': "\<forall>j<i. ?rs ! j < ?rs ! i"
  proof (intro allI impI)
    fix j :: nat assume j: "j < i"
    then have j5: "j < 5" using i by simp
    from lt j have "num_key (?ps ! j) < num_key (?ps ! i)" by blast
    then show "?rs ! j < ?rs ! i" using key_nth [OF j5] key_nth [OF i] by simp
  qed
  have dom: "dominant_part ?ps =
      [(''dominant_foundation'',
        Dict [(''name'', Str (foundations ! i)), (''probability'', ?vs ! i)])]"
    unfolding dominant_part_def m using fst_nth [OF i] snd_nth [OF i] by simp
  have "getitem s ''dominant_foundation'' =
      Inr (Dict [(''name'', Str (foundations ! i)), (''probability'', ?vs ! i)])"
    using get_moral_summary_dominant [OF r] unfolding ps dom by (simp add: getitem_def)
  with i le' lt'
  show "\<exists>i<5. getitem s ''dominant_foundation'' =
                  Inr (Dict [(''name'', Str (foundations ! i)), (''probability'', ?vs ! i)]) \<and>
               (\<forall>j<5. ?rs ! j \<le> ?rs ! i) \<and> (\<forall>j<i. ?rs ! j < ?rs ! i)"
    by blast
qed

text \<open>
  Fairness and loyalty tie at 0.3, the highest value: fairness, listed first, is reported.
\<close>

theorem dominant_foundation_highest_witness:
  "reads_numbers
     [(''care_p'', Num 0.1), (''fairness_p'', Num 0.3), (''loyalty_p'', Num 0.3),
      (''authority_p'', Num 0.2), (''sanctity_p'', Num 0.05), (''care_sent'', Num (- 0.2))]
     ''emfd'' \<and>
   (\<exists>s. get_moral_summary
          [(''care_p'', Num 0.1), (''fairness_p'', Num 0.3), (''loyalty_p'', Num 0.3),
           (''authority_p'', Num 0.2), (''sanctity_p'', Num 0.05), (''care_sent'', Num (- 0.2))]
          ''emfd'' = Inr s \<and>
        getitem s ''dominant_foundation'' =
          Inr (Dict [(''name'', Str ''fairness''), (''probability'', Num 0.3)]))"
proof -
  let ?sc = "[(''care_p'', Num 0.1), (''fairness_p'', Num 0.3), (''loyalty_p'', Num 0.3),
           (''authority_p'', Num 0.2), (''sanctity_p'', Num 0.05), (''care_sent'', Num (- 0.2))]"
  let ?vs = "[Num 0.1, Num 0.3, Num 0.3, Num 0.2, Num 0.05]"
  let ?rs = "[0.1, 0.3, 0.3, 0.2, 0.05] :: real list"
  have h: "getitem ?sc ''care_p'' = Inr (Num 0.1)" "num_of (Num 0.1) = Some 0.1"
    "getitem ?sc ''fairness_p'' = Inr (Num 0.3)" "num_of (Num 0.3) = Some 0.3"
    "getitem ?sc ''loyalty_p'' = Inr (Num 0.3)" "num_of (Num 0.3) = Some 0.3"
    "getitem ?sc ''authority_p'' = Inr (Num 0.2)" "num_of (Num 0.2) = Some 0.2"
    "getitem ?sc ''sanctity_p'' = Inr (Num 0.05)" "num_of (Num 0.05) = Some 0.05"
    by (simp_all add: getitem_def)
  have rn: "reads_numbers ?sc ''emfd''"
    by (simp add: reads_numbers_def read_keys_def foundations_def numeric_opt_def is_number_def)
  note t = dominant_foundation_highest [OF h]
  from t rn obtain s where s: "get_moral_summary ?sc ''emfd'' = Inr s" by blast
  with t obtain i where i: "i < 5"
      and d: "getitem s ''dominant_foundation'' =
          Inr (Dict [(''name'', Str (foundations ! i)), (''probability'', ?vs ! i)])"
      and le: "\<forall>j<5. ?rs ! j \<le> ?rs ! i" and lt: "\<forall>j<i. ?rs ! j < ?rs ! i"
    by blast
  from i have "i = 0 \<or> i = 1 \<or> i = 2 \<or> i = 3 \<or> i = 4" by arith
  moreover have "i \<noteq> 0"
  proof
    assume "i = 0"
    with le [rule_format, of 1] show False by simp
  qed
  moreover have "i \<noteq> 2"
  proof
    assume "i = 2"
    with lt [rule_format, of 1] show False by simp
  qed
  moreover have "i \<noteq> 3"
  proof
    assume "i = 3"
    with le [rule_format, of 1] show False by simp
  qed
  moreover have "i \<noteq> 4"
  proof
    assume "i = 4"
    with le [rule_format, of 1] show False by simp
  qed
  ultimately have "i = 1" by blast
  with s d rn show ?thesis by (simp add: foundations_def)
qed

text \<open>
  Claim C2 says that a record lacking a required probability, sentiment or ratio key makes
  \<open>get_moral_summary\<close> fail with \<open>MissingFieldError\<close>. The record below has \<open>care_p\<close>
  only; the summary is returned, without the absent fields.
\<close>

theorem summary_missing_field_counterexample:
  "get_moral_summary [(''care_p'', Num 0.2)] ''emfd'' =
     Inr [(''dictionary_used'', Str ''emfd''),
          (''moral_foundations'',
           Dict [(''care'', Dict [(''probability'', Num 0.2), (''strength'', Str ''very_high'')])]),
          (''dominant_foundation'', Dict [(''name'', Str ''care''), (''probability'', Num 0.2)])]"
  by (simp add: get_moral_summary_def foundations_def contains_Nil contains_Cons getitem_def
      and_then_def foundation_summary_def set_foundation_def add_moral_density_def
      categorize_value_def categorize_score_def)

text \<open>
  Claim C2, amended. For every score record whose read values are numbers, and every
  dictionary type, \<open>get_moral_summary\<close> does not fail on an absent key: it returns a
  summary that reports exactly the fields of the record. For eMFD, the \<open>probability\<close> and
  the \<open>sentiment\<close> of a foundation are the record's values, absent when the record's key
  is absent, and so are \<open>strength\<close> and \<open>sentiment_direction\<close>; a foundation has an entry
  exactly when one of its two keys is present; \<open>dominant_foundation\<close> is present exactly
  when some probability key is, and then names a foundation whose probability key is
  present, with the record's value. For MFD and MFD2 a foundation has an entry exactly when
  its key is present, with the record's score, and there is no \<open>dominant_foundation\<close>. In
  both, \<open>moral_density\<close> is present exactly when \<open>moral_nonmoral_ratio\<close> is, with the
  record's ratio. No default value stands in for an absent key.
\<close>

theorem get_moral_summary_omits_absent:
  "reads_numbers sc dict_type \<longrightarrow>
   (\<exists>s mf. get_moral_summary sc dict_type = Inr s \<and>
      getitem s ''moral_foundations'' = Inr (Dict mf) \<and>
      (dict_type = ''emfd'' \<longrightarrow>
         (\<forall>f\<in>set foundations.
            field_of mf f ''probability'' = map_of sc (f @ ''_p'') \<and>
            field_of mf f ''sentiment'' = map_of sc (f @ ''_sent'') \<and>
            (field_of mf f ''strength'' = None \<longleftrightarrow> map_of sc (f @ ''_p'') = None) \<and>
            (field_of mf f ''sentiment_direction'' = None \<longleftrightarrow> map_of sc (f @ ''_sent'') = None) \<and>
            (contains mf f \<longleftrightarrow> contains sc (f @ ''_p'') \<or> contains sc (f @ ''_sent''))) \<and>
         (contains s ''dominant_foundation'' \<longleftrightarrow>
            (\<exists>f\<in>set foundations. contains sc (f @ ''_p''))) \<and>
         (\<forall>d. getitem s ''dominant_foundation'' = Inr d \<longrightarrow>
            (\<exists>f\<in>set foundations. \<exists>v. map_of sc (f @ ''_p'') = Some v \<and>
               d = Dict [(''name'', Str f), (''probability'', v)])) \<and>
         field_of s ''moral_density'' ''ratio'' = map_of sc ''moral_nonmoral_ratio'' \<and>
         (contains s ''moral_density'' \<longleftrightarrow> contains sc ''moral_nonmoral_ratio'')) \<and>
      (dict_type = ''mfd'' \<or> dict_type = ''mfd2'' \<longrightarrow>
         (\<forall>f\<in>set mfd_foundations.
            field_of mf f ''score'' = map_of sc f \<and> (contains mf f \<longleftrightarrow> contains sc f)) \<and>
         \<not> contains s ''dominant_foundation'' \<and>
         field_of s ''moral_density'' ''ratio'' = map_of sc ''moral_nonmoral_ratio'' \<and>
         (contains s ''moral_density'' \<longleftrightarrow> contains sc ''moral_nonmoral_ratio'')))"
proof
  assume rn: "reads_numbers sc dict_type"
  consider "dict_type = ''emfd''" | "dict_type = ''mfd'' \<or> dict_type = ''mfd2''"
    | "dict_type \<noteq> ''emfd''" "dict_type \<noteq> ''mfd''" "dict_type \<noteq> ''mfd2''"
    by blast
  then show "\<exists>s mf. get_moral_summary sc dict_type = Inr s \<and>
      getitem s ''moral_foundations'' = Inr (Dict mf) \<and>
      (dict_type = ''emfd'' \<longrightarrow>
         (\<forall>f\<in>set foundations.
            field_of mf f ''probability'' = map_of sc (f @ ''_p'') \<and>
            field_of mf f ''sentiment'' = map_of sc (f @ ''_sent'') \<and>
            (field_of mf f ''strength'' = None \<longleftrightarrow> map_of sc (f @ ''_p'') = None) \<and>
            (field_of mf f ''sentiment_direction'' = None \<longleftrightarrow> map_of sc (f @ ''_sent'') = None) \<and>
            (contains mf f \<longleftrightarrow> contains sc (f @ ''_p'') \<or> contains sc (f @ ''_sent''))) \<and>
         (contains s ''dominant_foundation'' \<longleftrightarrow>
            (\<exists>f\<in>set foundations. contains sc (f @ ''_p''))) \<and>
         (\<forall>d. getitem s ''dominant_foundation'' = Inr d \<longrightarrow>
            (\<exists>f\<in>set foundations. \<exists>v. map_of sc (f @ ''_p'') = Some v \<and>
               d = Dict [(''name'', Str f), (''probability'', v)])) \<and>
         field_of s ''moral_density'' ''ratio'' = map_of sc ''moral_nonmoral_ratio'' \<and>
         (contains s ''moral_density'' \<longleftrightarrow> contains sc ''moral_nonmoral_ratio'')) \<and>
      (dict_type = ''mfd'' \<or> dict_type = ''mfd2'' \<longrightarrow>
         (\<forall>f\<in>set mfd_foundations.
            field_of mf f ''score'' = map_of sc f \<and> (contains mf f \<longleftrightarrow> contains sc f)) \<and>
         \<not> contains s ''dominant_foundation'' \<and>
         field_of s ''moral_density'' ''ratio'' = map_of sc ''moral_nonmoral_ratio'' \<and>
         (contains s ''moral_density'' \<longleftrightarrow> contains sc ''moral_nonmoral_ratio''))"
  proof cases
    case 1
    let ?ps = "present sc ''_p'' foundations"
    let ?ss = "present sc ''_sent'' foundations"
    let ?mf = "entries ?ps ?ss foundations"
    let ?s = "[(''dictionary_used'', Str ''emfd''), (''moral_foundations'', Dict ?mf)] @
          dominant_part ?ps @ density_part sc"
    from rn 1 have rn': "reads_numbers sc ''emfd''" by simp
    note rne = reads_numbers_emfd [OF rn']
    have np: "\<forall>f\<in>set foundations. numeric_opt (map_of sc (f @ ''_p''))" using rne by simp
    have a: "get_moral_summary sc dict_type = Inr ?s"
      using 1 get_moral_summary_emfd [OF rn'] by simp
    have b: "getitem ?s ''moral_foundations'' = Inr (Dict ?mf)"
      by (simp add: getitem_def)
    have c: "\<forall>f\<in>set foundations.
            field_of ?mf f ''probability'' = map_of sc (f @ ''_p'') \<and>
            field_of ?mf f ''sentiment'' = map_of sc (f @ ''_sent'') \<and>
            (field_of ?mf f ''strength'' = None \<longleftrightarrow> map_of sc (f @ ''_p'') = None) \<and>
            (field_of ?mf f ''sentiment_direction'' = None \<longleftrightarrow> map_of sc (f @ ''_sent'') = None) \<and>
            (contains ?mf f \<longleftrightarrow> contains sc (f @ ''_p'') \<or> contains sc (f @ ''_sent''))"
    proof
      fix f assume f: "f \<in> set foundations"
      have pv: "map_of ?ps f = map_of sc (f @ ''_p'')"
        and sv: "map_of ?ss f = map_of sc (f @ ''_sent'')"
        using f by (simp_all add: map_of_present)
      note ef = entry_fields [OF rne(1) [OF f] rne(2) [OF f]]
      show "field_of ?mf f ''probability'' = map_of sc (f @ ''_p'') \<and>
            field_of ?mf f ''sentiment'' = map_of sc (f @ ''_sent'') \<and>
            (field_of ?mf f ''strength'' = None \<longleftrightarrow> map_of sc (f @ ''_p'') = None) \<and>
            (field_of ?mf f ''sentiment_direction'' = None \<longleftrightarrow> map_of sc (f @ ''_sent'') = None) \<and>
            (contains ?mf f \<longleftrightarrow> contains sc (f @ ''_p'') \<or> contains sc (f @ ''_sent''))"
        using ef f
        by (simp add: field_of_entries pv sv contains_def [of ?mf] map_of_entries
            contains_def [of sc])
    qed
    note dp = dominant_part_numbers [OF present_numbers [OF np]]
    have md: "map_of ?s ''moral_density'' = map_of (density_part sc) ''moral_density''"
      by (simp add: map_add_def dominant_part_keys)
    have dm: "map_of ?s ''dominant_foundation'' = map_of (dominant_part ?ps) ''dominant_foundation''"
      by (simp add: map_add_def density_part_keys split: option.splits)
    have d: "contains ?s ''dominant_foundation'' \<longleftrightarrow>
        (\<exists>f\<in>set foundations. contains sc (f @ ''_p''))"
    proof -
      have "contains ?s ''dominant_foundation'' \<longleftrightarrow> ?ps \<noteq> []"
        using dp dm by (simp add: contains_def)
      also have "\<dots> \<longleftrightarrow> (\<exists>y. y \<in> set ?ps)" by (cases ?ps) auto
      also have "\<dots> \<longleftrightarrow> (\<exists>f\<in>set foundations. contains sc (f @ ''_p''))"
        by (auto simp add: set_present contains_def)
      finally show ?thesis .
    qed
    have e: "\<forall>d. getitem ?s ''dominant_foundation'' = Inr d \<longrightarrow>
            (\<exists>f\<in>set foundations. \<exists>v. map_of sc (f @ ''_p'') = Some v \<and>
               d = Dict [(''name'', Str f), (''probability'', v)])"
    proof (intro allI impI)
      fix d assume "getitem ?s ''dominant_foundation'' = Inr d"
      then have "map_of (dominant_part ?ps) ''dominant_foundation'' = Some d"
        unfolding getitem_Inr_iff dm .
      with dp obtain f v where "(f, v) \<in> set ?ps"
        "d = Dict [(''name'', Str f), (''probability'', v)]" by blast
      then show "\<exists>f\<in>set foundations. \<exists>v. map_of sc (f @ ''_p'') = Some v \<and>
               d = Dict [(''name'', Str f), (''probability'', v)]"
        by (auto simp add: set_present)
    qed
    have g: "field_of ?s ''moral_density'' ''ratio'' = map_of sc ''moral_nonmoral_ratio'' \<and>
         (contains ?s ''moral_density'' \<longleftrightarrow> contains sc ''moral_nonmoral_ratio'')"
      using density_part_ratio [OF rne(3)] md by (simp add: field_of_def contains_def)
    from a b c d e g 1 show ?thesis by blast
  next
    case 2
    let ?mf = "mfd_entries sc mfd_foundations"
    let ?s = "[(''dictionary_used'', Str dict_type), (''moral_foundations'', Dict ?mf)] @
          density_part sc"
    note rnm = reads_numbers_mfd [OF rn 2]
    have a: "get_moral_summary sc dict_type = Inr ?s"
      using get_moral_summary_mfd [OF rn 2] .
    have b: "getitem ?s ''moral_foundations'' = Inr (Dict ?mf)"
      by (simp add: getitem_def)
    have c: "\<forall>f\<in>set mfd_foundations.
            field_of ?mf f ''score'' = map_of sc f \<and> (contains ?mf f \<longleftrightarrow> contains sc f)"
    proof
      fix f assume f: "f \<in> set mfd_foundations"
      note mf = mfd_entry_fields [OF rnm(1) [OF f]]
      show "field_of ?mf f ''score'' = map_of sc f \<and> (contains ?mf f \<longleftrightarrow> contains sc f)"
        using mf f by (simp add: field_of_def map_of_mfd_entries contains_def)
    qed
    have d: "\<not> contains ?s ''dominant_foundation''"
      by (simp add: contains_def density_part_keys)
    have md: "map_of ?s ''moral_density'' = map_of (density_part sc) ''moral_density''"
      by simp
    have g: "field_of ?s ''moral_density'' ''ratio'' = map_of sc ''moral_nonmoral_ratio'' \<and>
         (contains ?s ''moral_density'' \<longleftrightarrow> contains sc ''moral_nonmoral_ratio'')"
      using density_part_ratio [OF rnm(2)] md by (simp add: field_of_def contains_def)
    have ne: "dict_type \<noteq> ''emfd''" using 2 by auto
    from a b c d g ne show ?thesis by blast
  next
    case 3
    let ?s = "[(''dictionary_used'', Str dict_type), (''moral_foundations'', Dict [])]"
    have a: "get_moral_summary sc dict_type = Inr ?s"
      using 3 by (rule get_moral_summary_other)
    have b: "getitem ?s ''moral_foundations'' = Inr (Dict [])"
      by (simp add: getitem_def)
    from a b 3 show ?thesis by blast
  qed
qed

text \<open>
  A record with \<open>care_p\<close> only; a record with no probability key, which gets no
  \<open>dominant_foundation\<close>; and an MFD2 record with \<open>care.vice\<close> only.
\<close>

theorem get_moral_summary_omits_absent_witness:
  "reads_numbers [(''care_p'', Num 0.2)] ''emfd'' \<and>
   (\<exists>s mf. get_moral_summary [(''care_p'', Num 0.2)] ''emfd'' = Inr s \<and>
      getitem s ''moral_foundations'' = Inr (Dict mf) \<and>
      field_of mf ''care'' ''probability'' = Some (Num 0.2) \<and>
      field_of mf ''care'' ''sentiment'' = None \<and>
      \<not> contains mf ''fairness'' \<and>
      \<not> contains s ''moral_density'') \<and>
   reads_numbers [(''care_sent'', Num 0.1)] ''emfd'' \<and>
   (\<exists>s. get_moral_summary [(''care_sent'', Num 0.1)] ''emfd'' = Inr s \<and>
      \<not> contains s ''dominant_foundation'') \<and>
   reads_numbers [(''care.vice'', Num 0.2)] ''mfd2'' \<and>
   (\<exists>s mf. get_moral_summary [(''care.vice'', Num 0.2)] ''mfd2'' = Inr s \<and>
      getitem s ''moral_foundations'' = Inr (Dict mf) \<and>
      field_of mf ''care.vice'' ''score'' = Some (Num 0.2) \<and>
      \<not> contains mf ''care.virtue'')"
proof -
  let ?a = "[(''care_p'', Num 0.2)]"
  let ?b = "[(''care_sent'', Num 0.1)]"
  let ?c = "[(''care.vice'', Num 0.2)]"
  have ra: "reads_numbers ?a ''emfd''" and rb: "reads_numbers ?b ''emfd''"
    by (simp_all add: reads_numbers_def read_keys_def foundations_def numeric_opt_def
        is_number_def)
  have rc: "reads_numbers ?c ''mfd2''"
    by (simp add: reads_numbers_def read_keys_def mfd_foundations_def numeric_opt_def
        is_number_def)
  have m: "''care'' \<in> set foundations" "''fairness'' \<in> set foundations"
    by (simp_all add: foundations_def)
  have n: "''care.vice'' \<in> set mfd_foundations" "''care.virtue'' \<in> set mfd_foundations"
    by (simp_all add: mfd_foundations_def)
  from get_moral_summary_omits_absent [of ?a "''emfd''"] ra obtain s mf
    where s: "get_moral_summary ?a ''emfd'' = Inr s"
      and mf: "getitem s ''moral_foundations'' = Inr (Dict mf)"
      and f: "\<forall>f\<in>set foundations.
            field_of mf f ''probability'' = map_of ?a (f @ ''_p'') \<and>
            field_of mf f ''sentiment'' = map_of ?a (f @ ''_sent'') \<and>
            (contains mf f \<longleftrightarrow> contains ?a (f @ ''_p'') \<or> contains ?a (f @ ''_sent''))"
      and d: "contains s ''moral_density'' \<longleftrightarrow> contains ?a ''moral_nonmoral_ratio''"
    by auto
  from f [rule_format, OF m(1)] have a1: "field_of mf ''care'' ''probability'' = Some (Num 0.2)"
    and a2: "field_of mf ''care'' ''sentiment'' = None"
    by simp_all
  from f [rule_format, OF m(2)] have a3: "\<not> contains mf ''fairness''"
    by (simp add: contains_Cons contains_Nil)
  from d have a4: "\<not> contains s ''moral_density''"
    by (simp add: contains_Cons contains_Nil)
  from s mf a1 a2 a3 a4
  have A: "\<exists>s mf. get_moral_summary ?a ''emfd'' = Inr s \<and>
      getitem s ''moral_foundations'' = Inr (Dict mf) \<and>
      field_of mf ''care'' ''probability'' = Some (Num 0.2) \<and>
      field_of mf ''care'' ''sentiment'' = None \<and>
      \<not> contains mf ''fairness'' \<and> \<not> contains s ''moral_density''"
    by blast
  from get_moral_summary_omits_absent [of ?b "''emfd''"] rb obtain s'
    where s': "get_moral_summary ?b ''emfd'' = Inr s'"
      and dom: "contains s' ''dominant_foundation'' \<longleftrightarrow>
        (\<exists>f\<in>set foundations. contains ?b (f @ ''_p''))"
    by auto
  from dom have "\<not> contains s' ''dominant_foundation''"
    by (simp add: foundations_def contains_Cons contains_Nil)
  with s' have B: "\<exists>s. get_moral_summary ?b ''emfd'' = Inr s \<and>
      \<not> contains s ''dominant_foundation''"
    by blast
  from get_moral_summary_omits_absent [of ?c "''mfd2''"] rc obtain s2 mf2
    where s2: "get_moral_summary ?c ''mfd2'' = Inr s2"
      and mf2: "getitem s2 ''moral_foundations'' = Inr (Dict mf2)"
      and f2: "\<forall>f\<in>set mfd_foundations.
            field_of mf2 f ''score'' = map_of ?c f \<and> (contains mf2 f \<longleftrightarrow> contains ?c f)"
    by auto
  from f2 [rule_format, OF n(1)] have c1: "field_of mf2 ''care.vice'' ''score'' = Some (Num 0.2)"
    by simp
  from f2 [rule_format, OF n(2)] have c2: "\<not> contains mf2 ''care.virtue''"
    by (simp add: contains_Cons contains_Nil)
  from s2 mf2 c1 c2
  have C: "\<exists>s mf. get_moral_summary ?c ''mfd2'' = Inr s \<and>
      getitem s ''moral_foundations'' = Inr (Dict mf) \<and>
      field_of mf ''care.vice'' ''score'' = Some (Num 0.2) \<and>
      \<not> contains mf ''care.virtue''"
    by blast
  from ra A rb B rc C show ?thesis by blast
qed

section \<open>Blank texts\<close>

lemma strip_empty_iff: "strip s = [] \<longleftrightarrow> list_all py_isspace s"
proof
  assume "strip s = []"
  then have a: "dropWhile py_isspace (rev (dropWhile py_isspace s)) = []"
    by (simp add: strip_def)
  show "list_all py_isspace s"
  proof (cases "dropWhile py_isspace s")
    case Nil
    then show ?thesis by (simp add: list_all_iff)
  next
    case (Cons x xs)
    then have "\<not> py_isspace x" using hd_dropWhile [of py_isspace s] by simp
    moreover have "x \<in> set (rev (dropWhile py_isspace s))" using Cons by simp
    ultimately show ?thesis using a by simp
  qed
next
  assume "list_all py_isspace s"
  then show "strip s = []"
    by (auto simp add: strip_def list_all_iff dest: set_dropWhileD)
qed

text \<open>
  Claim C3. For every text that is empty or all whitespace, \<open>analyze_text\<close> fails with
  the input error \<open>ValueError('Input text is empty')\<close>, whatever the dictionary type and
  the other arguments; for a text with a non-whitespace character it does not raise that
  error, provided pandas and the scoring backend do not raise that very error themselves.
\<close>

theorem analyze_text_empty_input:
  "(list_all py_isspace text \<longrightarrow>
      analyze_text os text dict_type prob_map score_method output_metrics =
        Inl (ValueError ''Input text is empty'')) \<and>
   (\<not> list_all py_isspace text \<and>
    (\<forall>content. read_csv os content \<noteq> Inl (ValueError ''Input text is empty'')) \<and>
    (\<forall>csv dt pm sm om n. score_docs os csv dt pm sm om n \<noteq> Inl (ValueError ''Input text is empty''))
    \<longrightarrow> analyze_text os text dict_type prob_map score_method output_metrics \<noteq>
          Inl (ValueError ''Input text is empty''))"
proof (intro conjI impI)
  assume "list_all py_isspace text"
  then show "analyze_text os text dict_type prob_map score_method output_metrics =
        Inl (ValueError ''Input text is empty'')"
    by (simp add: analyze_text_def strip_empty_iff)
next
  assume h: "\<not> list_all py_isspace text \<and>
    (\<forall>content. read_csv os content \<noteq> Inl (ValueError ''Input text is empty'')) \<and>
    (\<forall>csv dt pm sm om n. score_docs os csv dt pm sm om n \<noteq> Inl (ValueError ''Input text is empty''))"
  then have ne: "strip text \<noteq> []" by (simp add: strip_empty_iff)
  show "analyze_text os text dict_type prob_map score_method output_metrics \<noteq>
          Inl (ValueError ''Input text is empty'')"
  proof (cases "read_csv os (csv_field text)")
    case (Inl e)
    with h have "e \<noteq> ValueError ''Input text is empty''" by metis
    with Inl ne show ?thesis by (simp add: analyze_text_def and_then_def)
  next
    case csv: (Inr csv_data)
    let ?r = "if dict_type = ''emfd''
                then score_docs os csv_data dict_type prob_map score_method output_metrics
                       (length csv_data)
                else score_docs os csv_data dict_type [] score_method [] (length csv_data)"
    show ?thesis
    proof (cases ?r)
      case (Inl e)
      with h have "e \<noteq> ValueError ''Input text is empty''" by (metis (full_types))
      with Inl csv ne show ?thesis by (simp add: analyze_text_def and_then_def Let_def)
    next
      case (Inr df)
      with csv ne show ?thesis
        by (simp add: analyze_text_def and_then_def Let_def split: list.splits)
    qed
  qed
qed

text \<open>A blank text under the MFD dictionary, and a text with words.\<close>

theorem analyze_text_empty_input_witness:
  "list_all py_isspace [CHR '' '', CHR 0x09, CHR 0x0A] \<and>
   analyze_text example_env [CHR '' '', CHR 0x09, CHR 0x0A] ''mfd'' ''all'' ''bow'' ''sentiment'' =
     Inl (ValueError ''Input text is empty'') \<and>
   \<not> list_all py_isspace ''fair play'' \<and>
   analyze_text example_env ''fair play'' ''emfd'' ''all'' ''bow'' ''sentiment'' \<noteq>
     Inl (ValueError ''Input text is empty'')"
proof -
  have h1: "list_all py_isspace [CHR '' '', CHR 0x09, CHR 0x0A]"
    by (simp add: py_isspace_def)
  have h2: "\<not> list_all py_isspace ''fair play''"
    by (simp add: py_isspace_def)
  have h3: "\<forall>content. read_csv example_env content \<noteq> Inl (ValueError ''Input text is empty'')"
    by (simp add: example_env_def)
  have h4: "\<forall>csv dt pm sm om n. score_docs example_env csv dt pm sm om n \<noteq>
      Inl (ValueError ''Input text is empty'')"
    by (simp add: example_env_def)
  from analyze_text_empty_input [of "[CHR '' '', CHR 0x09, CHR 0x0A]" example_env "''mfd''"
      "''all''" "''bow''" "''sentiment''"] h1
  have a: "analyze_text example_env [CHR '' '', CHR 0x09, CHR 0x0A] ''mfd'' ''all'' ''bow''
      ''sentiment'' = Inl (ValueError ''Input text is empty'')"
    by blast
  from analyze_text_empty_input [of "''fair play''" example_env "''emfd''" "''all''" "''bow''"
      "''sentiment''"] h2 h3 h4
  have b: "analyze_text example_env ''fair play'' ''emfd'' ''all'' ''bow'' ''sentiment'' \<noteq>
     Inl (ValueError ''Input text is empty'')"
    by blast
  from h1 a h2 b show ?thesis by blast
qed

section \<open>Missing files\<close>

text \<open>
  Claim C9. For a path that does not exist, \<open>extract_text\<close> fails with
  \<open>FileNotFoundError\<close> and has called no extractor, whatever the extension of the path
  and the registered extractors.
\<close>

theorem extract_text_missing_file:
  "\<not> path_exists os file_path \<Longrightarrow>
   extract_text os extractors file_path kwargs =
     (Inl (FileNotFoundError (''File not found: '' @ file_path)), [])"
  by (simp add: extract_text_def)

theorem extract_text_missing_file_witness:
  "\<not> path_exists example_env ''missing.txt'' \<and>
   extract_text example_env [TxtExtractor example_env] ''missing.txt'' [] =
     (Inl (FileNotFoundError ''File not found: missing.txt''), [])"
proof -
  have h: "\<not> path_exists example_env ''missing.txt''" by (simp add: example_env_def)
  from extract_text_missing_file [OF h, of "[TxtExtractor example_env]" "[]"] h
  show ?thesis by simp
qed

section \<open>The order of the extractors\<close>

lemma fst_try_extractors_Cons:
  "fst (try_extractors (x # xs) n p kw) =
     (if supports_file x p \<and> \<not> isl (extract_from x p kw) then extract_from x p kw
      else fst (try_extractors xs (Suc n) p kw))"
  by (simp split: sum.splits prod.splits)

lemma snd_try_extractors_Cons:
  "snd (try_extractors (x # xs) n p kw) =
     (if supports_file x p
      then (if isl (extract_from x p kw)
            then Asked n # Ran n # snd (try_extractors xs (Suc n) p kw)
            else [Asked n, Ran n])
      else Asked n # snd (try_extractors xs (Suc n) p kw))"
  by (simp split: sum.splits prod.splits)

lemma try_extractors_find:
  "fst (try_extractors xs n p kw) =
     (case find (\<lambda>x. supports_file x p \<and> \<not> isl (extract_from x p kw)) xs of
        None \<Rightarrow> Inl (ValueError (''No suitable extractor found for file: '' @ p))
      | Some x \<Rightarrow> extract_from x p kw)"
proof (induction xs arbitrary: n)
  case Nil
  show ?case by simp
next
  case (Cons x xs)
  show ?case unfolding fst_try_extractors_Cons Cons.IH by simp
qed

lemma try_extractors_bounds:
  "ev \<in> set (snd (try_extractors xs n p kw)) \<Longrightarrow>
   n \<le> event_index ev \<and> event_index ev < n + length xs"
proof (induction xs arbitrary: n)
  case Nil
  then show ?case by simp
next
  case (Cons x xs)
  from Cons.prems consider "ev = Asked n" | "ev = Ran n"
    | "ev \<in> set (snd (try_extractors xs (Suc n) p kw))"
    unfolding snd_try_extractors_Cons by (auto split: if_splits)
  then show ?case
  proof cases
    case 3
    from Cons.IH [OF 3] show ?thesis by simp
  qed simp_all
qed

lemma try_extractors_sorted:
  "sorted (map event_index (snd (try_extractors xs n p kw)))"
proof (induction xs arbitrary: n)
  case Nil
  show ?case by simp
next
  case (Cons x xs)
  have b: "\<forall>ev \<in> set (snd (try_extractors xs (Suc n) p kw)). n \<le> event_index ev"
    using try_extractors_bounds [of _ xs "Suc n" p kw] by fastforce
  show ?case unfolding snd_try_extractors_Cons using Cons.IH [of "Suc n"] b by simp
qed

lemma try_extractors_ran:
  "Ran i \<in> set (snd (try_extractors xs n p kw)) \<Longrightarrow>
   n \<le> i \<and> i - n < length xs \<and> supports_file (xs ! (i - n)) p"
proof (induction xs arbitrary: n)
  case Nil
  then show ?case by simp
next
  case (Cons x xs)
  from Cons.prems consider "i = n" "supports_file x p"
    | "Ran i \<in> set (snd (try_extractors xs (Suc n) p kw))"
    unfolding snd_try_extractors_Cons by (auto split: if_splits)
  then show ?case
  proof cases
    case 1
    then show ?thesis by simp
  next
    case 2
    from Cons.IH [OF 2] have "Suc n \<le> i" "i - Suc n < length xs"
      "supports_file (xs ! (i - Suc n)) p" by simp_all
    moreover from \<open>Suc n \<le> i\<close> have "i - n = Suc (i - Suc n)" by simp
    ultimately show ?thesis by simp
  qed
qed

lemma try_encodings_find:
  "try_encodings os p encs =
     (case find (\<lambda>enc. \<not> is_decode_error (read_text os p enc)) encs of
        None \<Rightarrow> Inl (ValueError (''Unable to decode text file '' @ p))
      | Some enc \<Rightarrow> read_text os p enc)"
  by (induction encs) (auto simp add: is_decode_error_def split: sum.splits error.splits)

lemma txt_extract_chain:
  "txt_extract os p kw = try_encodings os p (text_encodings kw)"
  by (simp add: txt_extract_def text_encodings_def split: sum.splits error.splits)

lemma first_success_iff:
  "(case find P xs of None \<Rightarrow> Inl e0 | Some x \<Rightarrow> f x) = Inr t \<longleftrightarrow>
     (\<exists>i<length xs. P (xs ! i) \<and> f (xs ! i) = Inr t \<and> (\<forall>j<i. \<not> P (xs ! j)))"
proof (cases "find P xs")
  case None
  then have "\<forall>x\<in>set xs. \<not> P x" by (simp add: find_None_iff)
  with None show ?thesis by auto
next
  case (Some x)
  then obtain i where i: "i < length xs" "P (xs ! i)" "x = xs ! i" "\<forall>j<i. \<not> P (xs ! j)"
    unfolding find_Some_iff by blast
  show ?thesis
  proof
    assume "(case find P xs of None \<Rightarrow> Inl e0 | Some x \<Rightarrow> f x) = Inr t"
    with Some i show "\<exists>i<length xs. P (xs ! i) \<and> f (xs ! i) = Inr t \<and> (\<forall>j<i. \<not> P (xs ! j))"
      by auto
  next
    assume "\<exists>i<length xs. P (xs ! i) \<and> f (xs ! i) = Inr t \<and> (\<forall>j<i. \<not> P (xs ! j))"
    then obtain k where k: "k < length xs" "P (xs ! k)" "f (xs ! k) = Inr t"
      "\<forall>j<k. \<not> P (xs ! j)" by blast
    have "k = i"
    proof (rule ccontr)
      assume "k \<noteq> i"
      then consider "k < i" | "i < k" by linarith
      then show False using i k by cases auto
    qed
    with Some i k show "(case find P xs of None \<Rightarrow> Inl e0 | Some x \<Rightarrow> f x) = Inr t"
      by simp
  qed
qed

text \<open>
  Claim C7. For an existing path and any list of registered extractors, \<open>extract_text\<close>
  returns a text exactly when it is the result of the first extractor, in registration
  order, that supports the file and succeeds (every earlier supporting extractor failed);
  it fails exactly when every supporting extractor fails (in particular when none supports
  the file), and then with the "no suitable extractor" error; the extractors are called in
  registration order, and only supporting ones are run. The plain-text extractor returns
  the text read with the first of the requested encoding, latin-1, cp1252 and iso-8859-1
  for which all earlier ones failed to decode, and fails with the decoding error once all
  of them failed to decode.
\<close>

theorem extract_text_first_supporting:
  assumes "path_exists os file_path"
  shows "(\<forall>t. fst (extract_text os exs file_path kw) = Inr t \<longleftrightarrow>
            (\<exists>i<length exs. supports_file (exs ! i) file_path \<and>
               extract_from (exs ! i) file_path kw = Inr t \<and>
               (\<forall>j<i. supports_file (exs ! j) file_path \<longrightarrow>
                      isl (extract_from (exs ! j) file_path kw)))) \<and>
         (isl (fst (extract_text os exs file_path kw)) \<longleftrightarrow>
            (\<forall>x\<in>set exs. supports_file x file_path \<longrightarrow> isl (extract_from x file_path kw))) \<and>
         (isl (fst (extract_text os exs file_path kw)) \<longrightarrow>
            fst (extract_text os exs file_path kw) =
              Inl (ValueError (''No suitable extractor found for file: '' @ file_path))) \<and>
         sorted (map event_index (snd (extract_text os exs file_path kw))) \<and>
         (\<forall>i. Ran i \<in> set (snd (extract_text os exs file_path kw)) \<longrightarrow>
              i < length exs \<and> supports_file (exs ! i) file_path) \<and>
         (\<forall>t. extract_from (TxtExtractor os) file_path kw = Inr t \<longleftrightarrow>
            (\<exists>k<length (text_encodings kw).
               read_text os file_path (text_encodings kw ! k) = Inr t \<and>
               (\<forall>j<k. is_decode_error (read_text os file_path (text_encodings kw ! j))))) \<and>
         ((\<forall>enc\<in>set (text_encodings kw). is_decode_error (read_text os file_path enc)) \<longrightarrow>
            extract_from (TxtExtractor os) file_path kw =
              Inl (ValueError (''Unable to decode text file '' @ file_path)))"
proof -
  let ?P = "\<lambda>x. supports_file x file_path \<and> \<not> isl (extract_from x file_path kw)"
  let ?e0 = "ValueError (''No suitable extractor found for file: '' @ file_path)"
  have ex: "extract_text os exs file_path kw = try_extractors exs 0 file_path kw"
    using assms by (simp add: extract_text_def)
  have r: "fst (extract_text os exs file_path kw) =
      (case find ?P exs of None \<Rightarrow> Inl ?e0 | Some x \<Rightarrow> extract_from x file_path kw)"
    unfolding ex by (rule try_extractors_find)
  have p1: "\<forall>t. fst (extract_text os exs file_path kw) = Inr t \<longleftrightarrow>
            (\<exists>i<length exs. supports_file (exs ! i) file_path \<and>
               extract_from (exs ! i) file_path kw = Inr t \<and>
               (\<forall>j<i. supports_file (exs ! j) file_path \<longrightarrow>
                      isl (extract_from (exs ! j) file_path kw)))"
  proof
    fix t
    have "fst (extract_text os exs file_path kw) = Inr t \<longleftrightarrow>
        (\<exists>i<length exs. ?P (exs ! i) \<and> extract_from (exs ! i) file_path kw = Inr t \<and>
           (\<forall>j<i. \<not> ?P (exs ! j)))"
      unfolding r by (rule first_success_iff)
    also have "\<dots> \<longleftrightarrow> (\<exists>i<length exs. supports_file (exs ! i) file_path \<and>
               extract_from (exs ! i) file_path kw = Inr t \<and>
               (\<forall>j<i. supports_file (exs ! j) file_path \<longrightarrow>
                      isl (extract_from (exs ! j) file_path kw)))"
      by auto
    finally show "fst (extract_text os exs file_path kw) = Inr t \<longleftrightarrow>
            (\<exists>i<length exs. supports_file (exs ! i) file_path \<and>
               extract_from (exs ! i) file_path kw = Inr t \<and>
               (\<forall>j<i. supports_file (exs ! j) file_path \<longrightarrow>
                      isl (extract_from (exs ! j) file_path kw)))" .
  qed
  have p2: "isl (fst (extract_text os exs file_path kw)) \<longleftrightarrow>
            (\<forall>x\<in>set exs. supports_file x file_path \<longrightarrow> isl (extract_from x file_path kw))"
  proof (cases "find ?P exs")
    case None
    then have a: "\<forall>x\<in>set exs. \<not> ?P x" by (simp add: find_None_iff)
    have b: "isl (fst (extract_text os exs file_path kw))" unfolding r None by simp
    from a b show ?thesis by blast
  next
    case (Some x)
    then have a: "x \<in> set exs" "?P x"
      unfolding find_Some_iff by auto
    have b: "\<not> isl (fst (extract_text os exs file_path kw))"
      unfolding r Some using a by simp
    from a b show ?thesis by blast
  qed
  have p3: "isl (fst (extract_text os exs file_path kw)) \<longrightarrow>
            fst (extract_text os exs file_path kw) = Inl ?e0"
  proof (cases "find ?P exs")
    case None
    show ?thesis unfolding r None by simp
  next
    case (Some x)
    then have a: "?P x" unfolding find_Some_iff by auto
    have b: "\<not> isl (fst (extract_text os exs file_path kw))"
      unfolding r Some using a by simp
    then show ?thesis by blast
  qed
  have p4: "sorted (map event_index (snd (extract_text os exs file_path kw)))"
    unfolding ex by (rule try_extractors_sorted)
  have p5: "\<forall>i. Ran i \<in> set (snd (extract_text os exs file_path kw)) \<longrightarrow>
              i < length exs \<and> supports_file (exs ! i) file_path"
    unfolding ex using try_extractors_ran [of _ exs 0 file_path kw] by auto
  let ?encs = "text_encodings kw"
  let ?Q = "\<lambda>enc. \<not> is_decode_error (read_text os file_path enc)"
  let ?e1 = "ValueError (''Unable to decode text file '' @ file_path)"
  have t: "extract_from (TxtExtractor os) file_path kw =
      (case find ?Q ?encs of None \<Rightarrow> Inl ?e1 | Some enc \<Rightarrow> read_text os file_path enc)"
    by (simp add: TxtExtractor_def txt_extract_chain try_encodings_find)
  have p6: "\<forall>t. extract_from (TxtExtractor os) file_path kw = Inr t \<longleftrightarrow>
            (\<exists>k<length ?encs. read_text os file_path (?encs ! k) = Inr t \<and>
               (\<forall>j<k. is_decode_error (read_text os file_path (?encs ! j))))"
  proof
    fix t
    have "extract_from (TxtExtractor os) file_path kw = Inr t \<longleftrightarrow>
        (\<exists>k<length ?encs. ?Q (?encs ! k) \<and> read_text os file_path (?encs ! k) = Inr t \<and>
           (\<forall>j<k. \<not> ?Q (?encs ! j)))"
      unfolding t by (rule first_success_iff)
    also have "\<dots> \<longleftrightarrow> (\<exists>k<length ?encs. read_text os file_path (?encs ! k) = Inr t \<and>
               (\<forall>j<k. is_decode_error (read_text os file_path (?encs ! j))))"
      by (auto simp add: is_decode_error_def)
    finally show "extract_from (TxtExtractor os) file_path kw = Inr t \<longleftrightarrow>
            (\<exists>k<length ?encs. read_text os file_path (?encs ! k) = Inr t \<and>
               (\<forall>j<k. is_decode_error (read_text os file_path (?encs ! j))))" .
  qed
  have p7: "(\<forall>enc\<in>set ?encs. is_decode_error (read_text os file_path enc)) \<longrightarrow>
            extract_from (TxtExtractor os) file_path kw = Inl ?e1"
  proof
    assume "\<forall>enc\<in>set ?encs. is_decode_error (read_text os file_path enc)"
    then have n: "find ?Q ?encs = None" by (simp add: find_None_iff)
    show "extract_from (TxtExtractor os) file_path kw = Inl ?e1"
      unfolding t n by simp
  qed
  from p1 p2 p3 p4 p5 p6 p7 show ?thesis by blast
qed

lemma example_txt_supported: "txt_supports_file ''a.txt''"
  by (simp add: txt_supports_file_def endswith_def py_lower_def lower_char_def)

text \<open>
  The file is not valid UTF-8: the plain-text extractor, registered third, succeeds with
  latin-1 after the second extractor failed. Without it no extractor succeeds; and where
  no encoding decodes the file, the plain-text extractor fails.
\<close>

theorem extract_text_first_supporting_witness:
  "path_exists example_env ''a.txt'' \<and>
   is_decode_error (read_text example_env ''a.txt'' ''utf-8'') \<and>
   extract_from (TxtExtractor example_env) ''a.txt'' [] = Inr ''fair play'' \<and>
   fst (extract_text example_env example_extractors ''a.txt'' []) = Inr ''fair play'' \<and>
   sorted (map event_index (snd (extract_text example_env example_extractors ''a.txt'' []))) \<and>
   fst (extract_text example_env (take 2 example_extractors) ''a.txt'' []) =
     Inl (ValueError ''No suitable extractor found for file: a.txt'') \<and>
   extract_from
     (TxtExtractor (example_env\<lparr>read_text := (\<lambda>p enc. Inl (UnicodeDecodeError ''bad''))\<rparr>))
     ''a.txt'' [] = Inl (ValueError ''Unable to decode text file a.txt'')"
proof -
  have h: "path_exists example_env ''a.txt''" by (simp add: example_env_def)
  note T = extract_text_first_supporting [OF h, of example_extractors "[]"]
  note T2 = extract_text_first_supporting [OF h, of "take 2 example_extractors" "[]"]
  have "\<forall>x\<in>set (take 2 example_extractors). supports_file x ''a.txt'' \<longrightarrow>
      isl (extract_from x ''a.txt'' [])"
    by (simp add: example_extractors_def)
  with T2 have "isl (fst (extract_text example_env (take 2 example_extractors) ''a.txt'' []))"
    by blast
  with T2 have n: "fst (extract_text example_env (take 2 example_extractors) ''a.txt'' []) =
     Inl (ValueError ''No suitable extractor found for file: a.txt'')"
    by simp
  let ?os = "example_env\<lparr>read_text := (\<lambda>p enc. Inl (UnicodeDecodeError ''bad''))\<rparr>"
  have h': "path_exists ?os ''a.txt''" by (simp add: example_env_def)
  have "\<forall>enc\<in>set (text_encodings []). is_decode_error (read_text ?os ''a.txt'' enc)"
    by (simp add: is_decode_error_def)
  with extract_text_first_supporting [OF h', of "[]" "[]"]
  have u: "extract_from (TxtExtractor ?os) ''a.txt'' [] =
      Inl (ValueError ''Unable to decode text file a.txt'')"
    by simp
  have encs: "text_encodings [] = [''utf-8'', ''latin-1'', ''cp1252'', ''iso-8859-1'']"
    by (simp add: text_encodings_def requested_encoding_def fallback_encodings_def)
  have d: "is_decode_error (read_text example_env ''a.txt'' ''utf-8'')"
    by (simp add: example_env_def is_decode_error_def)
  have "\<exists>k<length (text_encodings []).
      read_text example_env ''a.txt'' (text_encodings [] ! k) = Inr ''fair play'' \<and>
      (\<forall>j<k. is_decode_error (read_text example_env ''a.txt'' (text_encodings [] ! j)))"
    unfolding encs using d by (intro exI [of _ 1]) (simp add: example_env_def)
  with T have x: "extract_from (TxtExtractor example_env) ''a.txt'' [] = Inr ''fair play''"
    by blast
  have "\<exists>i<length example_extractors. supports_file (example_extractors ! i) ''a.txt'' \<and>
      extract_from (example_extractors ! i) ''a.txt'' [] = Inr ''fair play'' \<and>
      (\<forall>j<i. supports_file (example_extractors ! j) ''a.txt'' \<longrightarrow>
             isl (extract_from (example_extractors ! j) ''a.txt'' []))"
  proof (intro exI [of _ 2] conjI allI impI)
    show "2 < length example_extractors" by (simp add: example_extractors_def)
    show "supports_file (example_extractors ! 2) ''a.txt''"
      by (simp add: example_extractors_def TxtExtractor_def example_txt_supported)
    show "extract_from (example_extractors ! 2) ''a.txt'' [] = Inr ''fair play''"
      using x by (simp add: example_extractors_def)
  next
    fix j :: nat
    assume "j < 2" and s: "supports_file (example_extractors ! j) ''a.txt''"
    then have "j = 0 \<or> j = 1" by arith
    with s show "isl (extract_from (example_extractors ! j) ''a.txt'' [])"
      by (auto simp add: example_extractors_def)
  qed
  with T have f: "fst (extract_text example_env example_extractors ''a.txt'' []) = Inr ''fair play''"
    by blast
  from T have s: "sorted (map event_index (snd (extract_text example_env example_extractors
      ''a.txt'' [])))"
    by blast
  from h d x f s n u show ?thesis by blast
qed

section \<open>Batches\<close>

lemma batch_loop_eq:
  "batch_loop os exs d p m o' kw results paths =
     results @ map (\<lambda>fp. case analyze_file os exs fp d p m o' kw of
                            Inr result \<Rightarrow> result | Inl e \<Rightarrow> error_entry fp e) paths"
  by (induction paths arbitrary: results) (auto split: sum.splits)

lemma analyze_file_no_error_key:
  "analyze_file os exs fp d p m o' kw = Inr result \<Longrightarrow> \<not> contains result ''error''"
  by (auto simp add: analyze_file_def and_then_def contains_def split: sum.splits)

text \<open>
  Claim C1. \<open>analyze_batch\<close> returns one entry per path, in the order of the paths: where
  \<open>analyze_file\<close> raises, the entry is the error entry of that path, with an \<open>error\<close>
  field holding the message; elsewhere it is the analysis result, which has no \<open>error\<close>
  field. A failing path does not affect the other entries.
\<close>

theorem analyze_batch_entries:
  "length (analyze_batch os exs paths d p m o' kw) = length paths \<and>
   (\<forall>i<length paths.
      (case analyze_file os exs (paths ! i) d p m o' kw of
         Inl e \<Rightarrow>
           analyze_batch os exs paths d p m o' kw ! i = error_entry (paths ! i) e \<and>
           getitem (analyze_batch os exs paths d p m o' kw ! i) ''error'' = Inr (Str (exc_str e))
       | Inr result \<Rightarrow>
           analyze_batch os exs paths d p m o' kw ! i = result \<and>
           \<not> contains result ''error''))"
proof (intro conjI allI impI)
  show "length (analyze_batch os exs paths d p m o' kw) = length paths"
    by (simp add: analyze_batch_def batch_loop_eq)
next
  fix i assume i: "i < length paths"
  show "case analyze_file os exs (paths ! i) d p m o' kw of
         Inl e \<Rightarrow>
           analyze_batch os exs paths d p m o' kw ! i = error_entry (paths ! i) e \<and>
           getitem (analyze_batch os exs paths d p m o' kw ! i) ''error'' = Inr (Str (exc_str e))
       | Inr result \<Rightarrow>
           analyze_batch os exs paths d p m o' kw ! i = result \<and>
           \<not> contains result ''error''"
  proof (cases "analyze_file os exs (paths ! i) d p m o' kw")
    case (Inl e)
    with i show ?thesis
      by (simp add: analyze_batch_def batch_loop_eq error_entry_def getitem_def)
  next
    case (Inr result)
    with i analyze_file_no_error_key [OF Inr] show ?thesis
      by (simp add: analyze_batch_def batch_loop_eq)
  qed
qed

lemma example_missing:
  "analyze_file example_env [TxtExtractor example_env] ''missing.txt'' ''emfd'' ''all'' ''bow''
     ''sentiment'' [] = Inl (FileNotFoundError ''File not found: missing.txt'')"
  by (simp add: analyze_file_def extract_text_def example_env_def and_then_def)

lemma example_present:
  "\<exists>result. analyze_file example_env [TxtExtractor example_env] ''a.txt'' ''emfd'' ''all'' ''bow''
     ''sentiment'' [] = Inr result"
  by (simp add: analyze_file_def extract_text_def example_env_def and_then_def TxtExtractor_def
      example_txt_supported txt_extract_def requested_encoding_def fallback_encodings_def
      txt_get_metadata_def analyze_text_def strip_def py_isspace_def)

text \<open>
  A batch whose second path does not exist: three entries, the second one an error entry.
\<close>

theorem analyze_batch_entries_witness:
  "length (analyze_batch example_env [TxtExtractor example_env]
             [''a.txt'', ''missing.txt'', ''a.txt''] ''emfd'' ''all'' ''bow'' ''sentiment'' []) = 3 \<and>
   \<not> contains (analyze_batch example_env [TxtExtractor example_env]
             [''a.txt'', ''missing.txt'', ''a.txt''] ''emfd'' ''all'' ''bow'' ''sentiment'' [] ! 0)
        ''error'' \<and>
   getitem (analyze_batch example_env [TxtExtractor example_env]
             [''a.txt'', ''missing.txt'', ''a.txt''] ''emfd'' ''all'' ''bow'' ''sentiment'' [] ! 1)
        ''error'' = Inr (Str ''File not found: missing.txt'') \<and>
   \<not> contains (analyze_batch example_env [TxtExtractor example_env]
             [''a.txt'', ''missing.txt'', ''a.txt''] ''emfd'' ''all'' ''bow'' ''sentiment'' [] ! 2)
        ''error''"
proof -
  let ?paths = "[''a.txt'', ''missing.txt'', ''a.txt'']"
  let ?b = "analyze_batch example_env [TxtExtractor example_env] ?paths ''emfd'' ''all'' ''bow''
      ''sentiment'' []"
  note t = analyze_batch_entries [of example_env "[TxtExtractor example_env]" ?paths "''emfd''"
      "''all''" "''bow''" "''sentiment''" "[]"]
  from t have len: "length ?b = 3" by simp
  from example_present obtain result
    where r: "analyze_file example_env [TxtExtractor example_env] ''a.txt'' ''emfd'' ''all''
      ''bow'' ''sentiment'' [] = Inr result"
    by blast
  from t have q: "\<forall>i<3. (case analyze_file example_env [TxtExtractor example_env] (?paths ! i)
         ''emfd'' ''all'' ''bow'' ''sentiment'' [] of
         Inl e \<Rightarrow> ?b ! i = error_entry (?paths ! i) e \<and>
           getitem (?b ! i) ''error'' = Inr (Str (exc_str e))
       | Inr result \<Rightarrow> ?b ! i = result \<and> \<not> contains result ''error'')"
    by simp
  from q [rule_format, of 0] r have e0: "\<not> contains (?b ! 0) ''error''"
    by simp
  from q [rule_format, of 1] example_missing
  have e1: "getitem (?b ! 1) ''error'' = Inr (Str ''File not found: missing.txt'')"
    by (simp add: error_entry_def getitem_def)
  from q [rule_format, of 2] r have e2: "\<not> contains (?b ! 2) ''error''"
    by simp
  from len e0 e1 e2 show ?thesis by blast
qed

end
